theory Spec2Isabelle
  imports Main "HOL-Library.Word" "HOL-Library.AList"
begin

unbundle bit_operations_syntax

section \<open>Data model of the tokenizer (tiktoken.hpp)\<close>

text \<open>
  \<^verbatim>\<open>using Rank = uint32_t;\<close>
  A \<^verbatim>\<open>std::string\<close> and a \<^verbatim>\<open>std::vector<uint8_t>\<close> are both sequences of
  bytes; a HOL \<open>char\<close> is one byte, so both are \<open>string\<close>. The two
  \<^verbatim>\<open>std::unordered_map\<close>s of the tokenizer are association lists with distinct keys:
  \<^verbatim>\<open>m[k] = v\<close> is \<open>AList.update k v\<close>, \<^verbatim>\<open>m.find(k)\<close> is \<open>map_of m k\<close>, and the
  list order stands for the (unspecified) iteration order.
\<close>

type_synonym Rank = "32 word"

datatype error =
    DecodeKeyError Rank
  | DecodeError
  | SpecialTokenNotFound string
  | NoReturn

text \<open>
  \<open>DecodeKeyError\<close> and \<open>DecodeError\<close> are the two exception classes of tiktoken.hpp,
  \<open>SpecialTokenNotFound\<close> is the \<^verbatim>\<open>std::runtime_error\<close> thrown by
  \<^verbatim>\<open>HarmonyEncoding::get_special_token\<close>, and \<open>NoReturn\<close> stands for a call that
  never returns.
\<close>

text \<open>
  The class \<^verbatim>\<open>CoreBPE\<close>; the fields drop the trailing underscore of the source
  names, which Isabelle reserves. The compiled \<^verbatim>\<open>std::regex\<close> kept in \<^verbatim>\<open>regex_tls_\<close> is
  represented by what \<^verbatim>\<open>encode_ordinary\<close> computes with it: the list of successive
  matches that a \<^verbatim>\<open>std::sregex_iterator\<close> yields on a text.
\<close>

record CoreBPE =
  encoder :: "(string \<times> Rank) list"
  special_tokens_encoder :: "(string \<times> Rank) list"
  decoder :: "(Rank \<times> string) list"
  special_tokens_decoder :: "(Rank \<times> string) list"
  regex_tls :: "string \<Rightarrow> string list"

subsection \<open>The fallback pattern of the constructor\<close>

text \<open>
  \<^verbatim>\<open>std::regex fallback_regex(R"(\S+|\s+)");\<close>
  In the default locale \<^verbatim>\<open>\s\<close> is \<^verbatim>\<open>isspace\<close>: the space and the bytes 9 to 13.
  Every byte is in \<^verbatim>\<open>\S\<close> or in \<^verbatim>\<open>\s\<close> and both alternatives are greedy, so the
  successive matches are the maximal runs of one class.
\<close>

definition isspace :: "char \<Rightarrow> bool" where
  "isspace c \<longleftrightarrow> c = CHR '' '' \<or> (9 \<le> (of_char c :: nat) \<and> (of_char c :: nat) \<le> 13)"

function fallback_regex :: "string \<Rightarrow> string list" where
  "fallback_regex [] = []"
| "fallback_regex (c # cs) =
     (if isspace c
      then takeWhile isspace (c # cs) # fallback_regex (dropWhile isspace (c # cs))
      else takeWhile (\<lambda>x. \<not> isspace x) (c # cs)
             # fallback_regex (dropWhile (\<lambda>x. \<not> isspace x) (c # cs)))"
  by pat_completeness auto
termination
  by (relation "measure length") (auto simp: le_imp_less_Suc length_dropWhile_le)

subsection \<open>The constructor\<close>

text \<open>
  \<^verbatim>\<open>
  for (const auto& [bytes, rank] : encoder_) { decoder_[rank] = bytes; }
  for (const auto& [token, rank] : special_tokens_encoder_) {
      special_tokens_decoder_[rank] = std::vector<uint8_t>(token.begin(), token.end());
  }
  try { std::regex main_regex(pattern ...); regex_tls_.resize(16, main_regex); ... }
  catch (const std::exception& e) {
      std::regex fallback_regex(R"(\S+|\s+)");
      regex_tls_.resize(16, fallback_regex); ...
  }
  \<close>
  The argument \<open>pattern\<close> is the compiled pattern, \<open>None\<close> when \<^verbatim>\<open>std::regex\<close>
  rejects the pattern string and the catch branch runs.
\<close>

definition invert_into :: "('a \<times> 'b) list \<Rightarrow> ('b \<times> 'a) list" where
  "invert_into m = fold (\<lambda>(k, v) d. AList.update v k d) m []"

definition CoreBPE_new ::
  "(string \<times> Rank) list \<Rightarrow> (string \<times> Rank) list \<Rightarrow> (string \<Rightarrow> string list) option \<Rightarrow> CoreBPE" where
  "CoreBPE_new enc special_enc pattern =
     \<lparr> encoder = enc,
       special_tokens_encoder = special_enc,
       decoder = invert_into enc,
       special_tokens_decoder = invert_into special_enc,
       regex_tls = (case pattern of Some main_regex \<Rightarrow> main_regex | None \<Rightarrow> fallback_regex) \<rparr>"

subsection \<open>byte_pair_merge and byte_pair_encode\<close>

text \<open>
  \<^verbatim>\<open>
  for (size_t i = 0; i + 1 < piece.size(); ++i) {
      std::vector<uint8_t> pair = {piece[i], piece[i + 1]};
      auto it = ranks.find(pair);
      if (it != ranks.end()) { merges.emplace_back(i, it->second); }
  }
  \<close>
  \<open>merge_scan ranks i rest\<close> is the loop from index \<open>i\<close> on, \<open>rest\<close> being the
  bytes of the piece from \<open>i\<close>.
\<close>

fun merge_scan :: "(string \<times> Rank) list \<Rightarrow> nat \<Rightarrow> string \<Rightarrow> (nat \<times> Rank) list" where
  "merge_scan ranks i (a # b # rest) =
     (case map_of ranks [a, b] of
        Some r \<Rightarrow> (i, r) # merge_scan ranks (i + 1) (b # rest)
      | None \<Rightarrow> merge_scan ranks (i + 1) (b # rest))"
| "merge_scan ranks i rest = []"

definition byte_pair_merge :: "(string \<times> Rank) list \<Rightarrow> string \<Rightarrow> (nat \<times> Rank) list" where
  "byte_pair_merge ranks piece = merge_scan ranks 0 piece"

text \<open>
  The loop that rebuilds \<^verbatim>\<open>parts\<close> after the best merge:
  \<^verbatim>\<open>
  for (size_t i = 0; i < parts.size(); ++i) {
      if (i == merge_pos) { new_parts.push_back(merged); }
      else if (i == merge_pos + 1) { /* skip */ }
      else { new_parts.push_back(parts[i]); }
  }
  \<close>
\<close>

fun rebuild_parts :: "nat \<Rightarrow> nat \<Rightarrow> string \<Rightarrow> string list \<Rightarrow> string list" where
  "rebuild_parts i merge_pos merged [] = []"
| "rebuild_parts i merge_pos merged (p # ps) =
     (if i = merge_pos then merged # rebuild_parts (i + 1) merge_pos merged ps
      else if i = merge_pos + 1 then rebuild_parts (i + 1) merge_pos merged ps
      else p # rebuild_parts (i + 1) merge_pos merged ps)"

text \<open>
  \<^verbatim>\<open>std::sort(merges ..., a.second < b.second); merge_pos = merges[0].first;\<close>
  The first element after sorting has the least rank. \<^verbatim>\<open>std::sort\<close> is not stable;
  among merges of equal rank the model takes the leftmost one (\<open>sort_key\<close> is stable).
\<close>

definition apply_best_merge :: "(nat \<times> Rank) list \<Rightarrow> string list \<Rightarrow> string list" where
  "apply_best_merge merges parts =
     (let merge_pos = fst (hd (sort_key snd merges)) in
      if merge_pos + 1 < length parts
      then rebuild_parts 0 merge_pos (parts ! merge_pos @ parts ! (merge_pos + 1)) parts
      else parts)"

definition single_bytes :: "string \<Rightarrow> string list" where
  "single_bytes piece = map (\<lambda>b. [b]) piece"

lemma merge_scan_sound:
  "(pos, r) \<in> set (merge_scan ranks i piece) \<Longrightarrow>
     i \<le> pos \<and> pos - i + 1 < length piece \<and>
     map_of ranks [piece ! (pos - i), piece ! (pos - i + 1)] = Some r"
proof (induction ranks i piece rule: merge_scan.induct)
  case (1 ranks i a b rest)
  show ?case
  proof (cases "pos = i")
    case True
    with "1.prems" "1.IH" show ?thesis
      by (auto split: option.splits)
  next
    case False
    with "1.prems" have mem: "(pos, r) \<in> set (merge_scan ranks (i + 1) (b # rest))"
      by (auto split: option.splits)
    have ih: "i + 1 \<le> pos \<and> pos - (i + 1) + 1 < length (b # rest) \<and>
        map_of ranks [(b # rest) ! (pos - (i + 1)), (b # rest) ! (pos - (i + 1) + 1)] = Some r"
    proof (cases "map_of ranks [a, b]")
      case None
      then show ?thesis using "1.IH"(1) mem by blast
    next
      case (Some x)
      then show ?thesis using "1.IH"(2) mem by blast
    qed
    then have "pos - i = Suc (pos - (i + 1))" by arith
    with ih show ?thesis by auto
  qed
qed simp_all

lemma hd_sort_key_mem: "xs \<noteq> [] \<Longrightarrow> hd (sort_key f xs) \<in> set xs"
proof -
  assume "xs \<noteq> []"
  then have "set (sort_key f xs) \<noteq> {}" by simp
  then have "sort_key f xs \<noteq> []" by (metis set_empty)
  then have "hd (sort_key f xs) \<in> set (sort_key f xs)" by (rule hd_in_set)
  then show ?thesis by simp
qed

lemma merge_scan_nonempty: "merge_scan ranks i piece \<noteq> [] \<Longrightarrow> 2 \<le> length piece"
  by (induction ranks i piece rule: merge_scan.induct) simp_all

lemma rebuild_parts_skip:
  "merge_pos < i \<Longrightarrow> rebuild_parts i merge_pos merged ps = (if i = merge_pos + 1 then tl ps else ps)"
proof (induction ps arbitrary: i)
  case Nil
  then show ?case by simp
next
  case (Cons p ps)
  then show ?case by (cases "i = merge_pos + 1") auto
qed

lemma rebuild_parts_set:
  "i \<le> merge_pos \<Longrightarrow> merge_pos - i < length ps \<Longrightarrow>
     set (rebuild_parts i merge_pos merged ps) \<subseteq> insert merged (set ps)"
proof (induction ps arbitrary: i)
  case Nil
  then show ?case by simp
next
  case (Cons p ps)
  show ?case
  proof (cases "i = merge_pos")
    case True
    then have "rebuild_parts i merge_pos merged (p # ps) = merged # tl ps"
      by (simp add: rebuild_parts_skip)
    then show ?thesis
      by (cases ps) auto
  next
    case False
    with Cons.prems have "i + 1 \<le> merge_pos" "merge_pos - (i + 1) < length ps"
      by auto
    from Cons.IH [OF this] False Cons.prems show ?thesis
      by auto
  qed
qed

lemma apply_best_merge_parts:
  assumes "merges = byte_pair_merge ranks piece" and "merges \<noteq> []"
    and "part \<in> set (apply_best_merge merges (single_bytes piece))"
  shows "length part = 1 \<or> map_of ranks part \<noteq> None"
proof -
  obtain pos r where hd_eq: "hd (sort_key snd merges) = (pos, r)"
    by (cases "hd (sort_key snd merges)") auto
  with assms(2) have "(pos, r) \<in> set merges"
    by (metis hd_sort_key_mem)
  with assms(1) have snd: "pos + 1 < length piece"
      "map_of ranks [piece ! pos, piece ! (pos + 1)] = Some r"
    using merge_scan_sound [of pos r ranks 0 piece] by (auto simp: byte_pair_merge_def)
  then have "set (apply_best_merge merges (single_bytes piece))
      \<subseteq> insert [piece ! pos, piece ! (pos + 1)] (set (single_bytes piece))"
    using rebuild_parts_set [of 0 pos "single_bytes piece"] hd_eq
    by (simp add: apply_best_merge_def single_bytes_def)
  with assms(3) snd show ?thesis
    by (auto simp: single_bytes_def)
qed

text \<open>
  \<^verbatim>\<open>
  if (piece.size() == 1) { it = ranks.find(piece); return found ? {it->second} : {}; }
  auto merges = byte_pair_merge(ranks, piece);
  if (merges.empty()) { /* ranks of the single bytes that are in ranks */ }
  std::sort(...); parts = single bytes; apply the best merge;
  for (const auto& part : parts) {
      it = ranks.find(part);
      if (it != ranks.end()) result.push_back(it->second);
      else { sub_result = byte_pair_encode(part, ranks); append sub_result }
  }
  \<close>
\<close>

function byte_pair_encode :: "string \<Rightarrow> (string \<times> Rank) list \<Rightarrow> Rank list" where
  "byte_pair_encode piece ranks =
     (if length piece = 1
      then (case map_of ranks piece of Some r \<Rightarrow> [r] | None \<Rightarrow> [])
      else
        (let merges = byte_pair_merge ranks piece in
         if merges = []
         then concat (map (\<lambda>byte. case map_of ranks [byte] of Some r \<Rightarrow> [r] | None \<Rightarrow> []) piece)
         else
           concat (map (\<lambda>part. case map_of ranks part of
                                  Some r \<Rightarrow> [r]
                                | None \<Rightarrow> byte_pair_encode part ranks)
                       (apply_best_merge merges (single_bytes piece)))))"
  by pat_completeness auto
termination
proof (relation "measure (\<lambda>(piece, ranks). length piece)", goal_cases)
  case 1
  show ?case by simp
next
  case (2 piece ranks merges part)
  then have "length part = 1 \<or> map_of ranks part \<noteq> None"
    using apply_best_merge_parts [of merges ranks piece part] by simp
  with 2 have "length part = 1" by simp
  moreover from 2 have "2 \<le> length piece"
    using merge_scan_nonempty [of ranks 0 piece] by (simp add: byte_pair_merge_def)
  ultimately show ?case by simp
qed

declare byte_pair_encode.simps [simp del]

subsection \<open>CoreBPE: encode_ordinary, decode_bytes, decode_utf8\<close>

text \<open>
  \<^verbatim>\<open>
  for (; iter != end; ++iter) {
      std::string piece = iter->str();
      auto piece_tokens = byte_pair_encode(piece_bytes, encoder_);
      result.insert(result.end(), piece_tokens.begin(), piece_tokens.end());
  }
  \<close>
\<close>

definition encode_ordinary :: "CoreBPE \<Rightarrow> string \<Rightarrow> Rank list" where
  "encode_ordinary bpe text =
     concat (map (\<lambda>piece. byte_pair_encode piece (encoder bpe)) (regex_tls bpe text))"

text \<open>
  \<^verbatim>\<open>decode_bytes\<close>: the ordinary decoder is asked first, then the special one; a rank in
  neither throws \<^verbatim>\<open>DecodeKeyError(token)\<close>. The loop throws at the first such rank.
\<close>

fun decode_bytes :: "CoreBPE \<Rightarrow> Rank list \<Rightarrow> error + string" where
  "decode_bytes bpe [] = Inr []"
| "decode_bytes bpe (token # tokens) =
     (case map_of (decoder bpe) token of
        Some bytes \<Rightarrow>
          (case decode_bytes bpe tokens of Inl e \<Rightarrow> Inl e | Inr result \<Rightarrow> Inr (bytes @ result))
      | None \<Rightarrow>
          (case map_of (special_tokens_decoder bpe) token of
             Some bytes \<Rightarrow>
               (case decode_bytes bpe tokens of Inl e \<Rightarrow> Inl e | Inr result \<Rightarrow> Inr (bytes @ result))
           | None \<Rightarrow> Inl (DecodeKeyError token)))"

text \<open>
  The validation loop of \<^verbatim>\<open>decode_utf8\<close>, index by index as in the source; \<open>False\<close> is
  \<^verbatim>\<open>throw DecodeError("Invalid UTF-8 sequence")\<close>.
  \<^verbatim>\<open>
  for (size_t i = 0; i < result.length(); ) {
      unsigned char c = result[i];
      if (c < 0x80) { i++; }
      else if ((c >> 5) == 0x06) {
          if (i + 1 >= result.length() || (result[i + 1] & 0xC0) != 0x80) throw ...;
          i += 2;
      } else if ((c >> 4) == 0x0E) { ... i += 3; }
      else if ((c >> 3) == 0x1E) { ... i += 4; }
      else throw ...;
  }
  \<close>
\<close>

definition continuation_byte :: "string \<Rightarrow> nat \<Rightarrow> bool" where
  "continuation_byte result j \<longleftrightarrow> (of_char (result ! j) :: nat) AND 0xC0 = 0x80"

function utf8_scan :: "string \<Rightarrow> nat \<Rightarrow> bool" where
  "utf8_scan result i =
     (if i < length result then
        (let c = (of_char (result ! i) :: nat) in
         if c < 0x80 then utf8_scan result (i + 1)
         else if drop_bit 5 c = 0x06 then
           (if i + 1 \<ge> length result \<or> \<not> continuation_byte result (i + 1) then False
            else utf8_scan result (i + 2))
         else if drop_bit 4 c = 0x0E then
           (if i + 2 \<ge> length result \<or> \<not> continuation_byte result (i + 1)
               \<or> \<not> continuation_byte result (i + 2) then False
            else utf8_scan result (i + 3))
         else if drop_bit 3 c = 0x1E then
           (if i + 3 \<ge> length result \<or> \<not> continuation_byte result (i + 1)
               \<or> \<not> continuation_byte result (i + 2) \<or> \<not> continuation_byte result (i + 3) then False
            else utf8_scan result (i + 4))
         else False)
      else True)"
  by pat_completeness auto
termination
  by (relation "measure (\<lambda>(result, i). length result - i)") auto

declare utf8_scan.simps [simp del]

definition decode_utf8 :: "CoreBPE \<Rightarrow> Rank list \<Rightarrow> error + string" where
  "decode_utf8 bpe tokens =
     (case decode_bytes bpe tokens of
        Inl e \<Rightarrow> Inl e
      | Inr result \<Rightarrow> if utf8_scan result 0 then Inr result else Inl DecodeError)"

definition special_tokens :: "CoreBPE \<Rightarrow> string set" where
  "special_tokens bpe = set (map fst (special_tokens_encoder bpe))"

definition is_special_token :: "CoreBPE \<Rightarrow> Rank \<Rightarrow> bool" where
  "is_special_token bpe token \<longleftrightarrow> map_of (special_tokens_decoder bpe) token \<noteq> None"

subsection \<open>CoreBPE::encode, the special-token scanner\<close>

text \<open>
  The inner loop over \<^verbatim>\<open>special_tokens_encoder_\<close>: the first entry, in iteration order,
  that passes the test
  \<^verbatim>\<open>allowed_special.count(special_token) > 0 || allowed_special.empty()\<close>
  and for which \<^verbatim>\<open>remaining_text.substr(pos, special_token.length()) == special_token\<close>.
  \<open>rest\<close> is \<^verbatim>\<open>remaining_text\<close> from \<^verbatim>\<open>pos\<close> on.
\<close>

fun find_special :: "(string \<times> Rank) list \<Rightarrow> string set \<Rightarrow> string \<Rightarrow> (string \<times> Rank) option" where
  "find_special [] allowed_special rest = None"
| "find_special ((special_token, rank) # others) allowed_special rest =
     (if (special_token \<in> allowed_special \<or> allowed_special = {})
         \<and> take (length special_token) rest = special_token
      then Some (special_token, rank)
      else find_special others allowed_special rest)"

text \<open>
  The outer loop \<^verbatim>\<open>while (pos < remaining_text.length())\<close>. The state is
  \<^verbatim>\<open>remaining_text\<close>, split at \<^verbatim>\<open>pos\<close> into \<open>before\<close> and \<open>rest\<close>, with \<^verbatim>\<open>result\<close>
  and \<^verbatim>\<open>last_piece_token_len\<close>. After a special token is found the text before it is
  encoded (when \<^verbatim>\<open>pos > 0\<close>), the rank is pushed, and the scan restarts behind the
  literal with \<^verbatim>\<open>pos = 0\<close>. With an empty literal in the table the source loop never
  ends; the function is partial and \<open>None\<close> is a call that does not return.
\<close>

partial_function (option) scan_specials ::
  "CoreBPE \<Rightarrow> string set \<Rightarrow> string \<Rightarrow> string \<Rightarrow> Rank list \<Rightarrow> nat \<Rightarrow> (Rank list \<times> nat) option" where
  "scan_specials bpe allowed_special before rest result last_piece_token_len =
     (case rest of
        [] \<Rightarrow>
          (if before \<noteq> []
           then Some (result @ encode_ordinary bpe before, length (encode_ordinary bpe before))
           else Some (result, last_piece_token_len))
      | c # cs \<Rightarrow>
          (case find_special (special_tokens_encoder bpe) allowed_special rest of
             Some (special_token, rank) \<Rightarrow>
               scan_specials bpe allowed_special [] (drop (length special_token) rest)
                 ((if before \<noteq> [] then result @ encode_ordinary bpe before else result) @ [rank]) 1
           | None \<Rightarrow>
               scan_specials bpe allowed_special (before @ [c]) cs result last_piece_token_len))"

definition encode :: "CoreBPE \<Rightarrow> string \<Rightarrow> string set \<Rightarrow> (Rank list \<times> nat) option" where
  "encode bpe text allowed_special =
     (if special_tokens_encoder bpe = []
      then Some (encode_ordinary bpe text, length (encode_ordinary bpe text))
      else scan_specials bpe allowed_special [] text [] 0)"

definition encode_with_special_tokens :: "CoreBPE \<Rightarrow> string \<Rightarrow> Rank list option" where
  "encode_with_special_tokens bpe text = map_option fst (encode bpe text (special_tokens bpe))"

section \<open>The registry (registry.cpp)\<close>

text \<open>
  \<^verbatim>\<open>create_basic_encoder\<close>: the 256 single bytes with their value as rank, then the
  listed byte strings.
\<close>

definition common_pairs :: "(string \<times> Rank) list" where
  "common_pairs =
     [(''th'', 256), (''he'', 257), (''in'', 258), (''er'', 259), (''an'', 260),
      (''re'', 261), (''ed'', 262), (''nd'', 263), (''on'', 264), (''en'', 265),
      (''at'', 266), (''ou'', 267), (''it'', 268), (''is'', 269), (''or'', 270),
      (''ti'', 271), (''as'', 272), (''te'', 273), (''et'', 274), (''ng'', 275),
      (''of'', 276), (''al'', 277), (''de'', 278), (''se'', 279), (''le'', 280),
      (''to'', 281), (''ar'', 282), (''st'', 283), (''nt'', 284), (''ro'', 285),
      (''ne'', 286), (''om'', 287), (''li'', 288), (''la'', 289), (''el'', 290),
      (''ma'', 291), (''ri'', 292), (''ic'', 293), (''co'', 294), (''ca'', 295),
      (''tion'', 296), (''ing'', 297), (''and'', 298), (''the'', 299), (''for'', 300),
      (''are'', 301), (''with'', 302), (''his'', 303), (''they'', 304), (''have'', 305),
      (''this'', 306), (''will'', 307), (''you'', 308), (''that'', 309), (''but'', 310),
      (''not'', 311), (''what'', 312), (''all'', 313), (''were'', 314), (''can'', 315),
      (''had'', 316), (''her'', 317), (''was'', 318), (''one'', 319), (''our'', 320)]"

definition create_basic_encoder :: "(string \<times> Rank) list" where
  "create_basic_encoder =
     fold (\<lambda>(text, rank) enc. AList.update text rank enc) common_pairs
       (fold (\<lambda>i enc. AList.update [char_of i] (of_nat i) enc) [0 ..< 256] [])"

definition create_harmony_special_tokens :: "(string \<times> Rank) list" where
  "create_harmony_special_tokens =
     [(''<|start|>'', 200000), (''<|end|>'', 200001), (''<|message|>'', 200002),
      (''<|channel|>'', 200003), (''<|constrain|>'', 200004), (''<|call|>'', 200005),
      (''<|reasoning|>'', 200006), (''<|thinking|>'', 200007), (''<|analysis|>'', 200008),
      (''<|commentary|>'', 200009), (''<|final|>'', 200010), (''<|system|>'', 200011),
      (''<|user|>'', 200012), (''<|assistant|>'', 200013), (''<|developer|>'', 200014),
      (''<|tool|>'', 200015)]"

text \<open>
  \<^verbatim>\<open>load_harmony_encoding\<close> passes the pattern
  \<^verbatim>\<open>[^\r\n\p{L}\p{N}]?+\p{L}++|\p{N}{1,3}| ?[^\s\p{L}\p{N}]++[\r\n]*|\s*[\r\n]|\s+(?!\S)|\s++\<close>
  to the constructor. The ECMAScript grammar of \<^verbatim>\<open>std::regex\<close> has no \<^verbatim>\<open>\p{..}\<close>
  classes (the brace after \<^verbatim>\<open>\p\<close> is a malformed repetition count), so compiling it throws
  \<^verbatim>\<open>std::regex_error\<close> and the tokenizer runs on the fallback pattern: the compiled
  pattern handed to the constructor is \<open>None\<close>.
\<close>

definition harmony_tokenizer :: CoreBPE where
  "harmony_tokenizer = CoreBPE_new create_basic_encoder create_harmony_special_tokens None"

section \<open>The chat data model (chat.hpp)\<close>

datatype Role = User | Assistant | System | Developer | Tool

datatype ReasoningEffort = Low | Medium | High

fun reasoning_effort_to_string :: "ReasoningEffort \<Rightarrow> string" where
  "reasoning_effort_to_string Low = ''low''"
| "reasoning_effort_to_string Medium = ''medium''"
| "reasoning_effort_to_string High = ''high''"

record Author =
  role :: Role
  name :: "string option"

text \<open>
  \<^verbatim>\<open>ToolDescription\<close> and \<^verbatim>\<open>ToolNamespaceConfig\<close>; their fields carry a prefix since
  \<open>name\<close> is taken by \<open>Author\<close>. The renderer reads the JSON value
  \<^verbatim>\<open>parameters\<close> only through \<^verbatim>\<open>parameters->dump()\<close>, so the field holds the text that
  \<^verbatim>\<open>dump()\<close> prints.
\<close>

record ToolDescription =
  tool_name :: string
  tool_description :: string
  tool_parameters :: "string option"

record ToolNamespaceConfig =
  ns_name :: string
  ns_description :: "string option"
  ns_tools :: "ToolDescription list"

record ChannelConfig =
  valid_channels :: "string list"
  channel_required :: bool

record SystemContent =
  model_identity :: "string option"
  reasoning_effort :: "ReasoningEffort option"
  sys_tools :: "(string \<times> ToolNamespaceConfig) list option"
  conversation_start_date :: "string option"
  knowledge_cutoff :: "string option"
  channel_config :: "ChannelConfig option"

record DeveloperContent =
  instructions :: "string option"
  dev_tools :: "(string \<times> ToolNamespaceConfig) list option"

datatype Content =
    TextContent string
  | SystemContent SystemContent
  | DeveloperContent DeveloperContent

record Message =
  author :: Author
  recipient :: "string option"
  content :: "Content list"
  channel :: "string option"
  content_type :: "string option"

text \<open>\<^verbatim>\<open>struct Conversation { std::vector<Message> messages; }\<close> is the list of its messages.\<close>

type_synonym Conversation = "Message list"

text \<open>\<^verbatim>\<open>Message::from_role_and_content\<close> and the chained setters.\<close>

definition from_role_and_content :: "Role \<Rightarrow> Content \<Rightarrow> Message" where
  "from_role_and_content r c =
     \<lparr> author = \<lparr> role = r, name = None \<rparr>, recipient = None, content = [c],
       channel = None, content_type = None \<rparr>"

definition with_channel :: "string \<Rightarrow> Message \<Rightarrow> Message" where
  "with_channel c m = m \<lparr> channel := Some c \<rparr>"

definition with_recipient :: "string \<Rightarrow> Message \<Rightarrow> Message" where
  "with_recipient r m = m \<lparr> recipient := Some r \<rparr>"

definition with_content_type :: "string \<Rightarrow> Message \<Rightarrow> Message" where
  "with_content_type t m = m \<lparr> content_type := Some t \<rparr>"

section \<open>HarmonyEncoding: rendering (encoding.cpp)\<close>

record RenderConversationConfig =
  auto_drop_analysis :: bool

text \<open>
  The fields of \<^verbatim>\<open>HarmonyEncoding\<close> that the renderer and the parsers read; the
  formatting-token tables are empty in \<^verbatim>\<open>load_harmony_encoding\<close> and never read.
\<close>

record HarmonyEncoding =
  encoding_name :: string
  n_ctx :: nat
  max_message_tokens :: nat
  max_action_length :: nat
  tokenizer_name :: string
  tokenizer :: CoreBPE

definition load_harmony_encoding :: HarmonyEncoding where
  "load_harmony_encoding =
     \<lparr> encoding_name = ''harmony_gpt_oss'', n_ctx = 8192, max_message_tokens = 4096,
       max_action_length = 1024, tokenizer_name = ''o200k_harmony'',
       tokenizer = harmony_tokenizer \<rparr>"

text \<open>Sequencing of calls that may throw: the first exception ends the computation.\<close>

definition and_then :: "error + 'a \<Rightarrow> ('a \<Rightarrow> error + 'b) \<Rightarrow> error + 'b" where
  "and_then r f = (case r of Inl e \<Rightarrow> Inl e | Inr x \<Rightarrow> f x)"

text \<open>
  \<^verbatim>\<open>
  auto special_tokens = tokenizer_->special_tokens();
  if (special_tokens.count(token) > 0) {
      auto tokens = tokenizer_->encode_with_special_tokens(token);
      if (!tokens.empty()) { return tokens[0]; }
  }
  throw std::runtime_error("Special token not found: " + token);
  \<close>
\<close>

definition get_special_token :: "HarmonyEncoding \<Rightarrow> string \<Rightarrow> error + Rank" where
  "get_special_token enc token =
     (if token \<in> special_tokens (tokenizer enc)
      then (case encode_with_special_tokens (tokenizer enc) token of
              None \<Rightarrow> Inl NoReturn
            | Some [] \<Rightarrow> Inl (SpecialTokenNotFound token)
            | Some (t # ts) \<Rightarrow> Inr t)
      else Inl (SpecialTokenNotFound token))"

fun role_to_special_token :: "Role \<Rightarrow> string" where
  "role_to_special_token System = ''<|system|>''"
| "role_to_special_token User = ''<|user|>''"
| "role_to_special_token Assistant = ''<|assistant|>''"
| "role_to_special_token Developer = ''<|developer|>''"
| "role_to_special_token Tool = ''<|tool|>''"

definition newline :: string where
  "newline = [CHR 0x0A]"

text \<open>The text written for one tool and for one namespace of a tools section.\<close>

definition render_tool :: "ToolDescription \<Rightarrow> string" where
  "render_tool tool =
     ''## '' @ tool_name tool @ newline @ tool_description tool @ newline
     @ (case tool_parameters tool of
          Some dump \<Rightarrow> ''Parameters: '' @ dump @ newline
        | None \<Rightarrow> [])
     @ newline"

definition render_namespace :: "string \<times> ToolNamespaceConfig \<Rightarrow> string" where
  "render_namespace entry =
     (let ns_config = snd entry in
      ''# '' @ ns_name ns_config
      @ (case ns_description ns_config of Some d \<Rightarrow> newline @ d | None \<Rightarrow> [])
      @ newline
      @ concat (map render_tool (ns_tools ns_config)))"

text \<open>
  The joined channel list:
  \<^verbatim>\<open>for (i = 0; i < size; ++i) { if (i > 0) ss << ", "; ss << valid_channels[i]; }\<close>
\<close>

fun join_channels :: "string list \<Rightarrow> string" where
  "join_channels [] = []"
| "join_channels [c] = c"
| "join_channels (c # cs) = c @ '', '' @ join_channels cs"

definition system_content_text :: "SystemContent \<Rightarrow> string" where
  "system_content_text system_content =
     (case model_identity system_content of
        Some m \<Rightarrow> ''Model: '' @ m @ newline | None \<Rightarrow> [])
     @ (case reasoning_effort system_content of
          Some e \<Rightarrow> ''Reasoning effort: '' @ reasoning_effort_to_string e @ newline | None \<Rightarrow> [])
     @ (case knowledge_cutoff system_content of
          Some k \<Rightarrow> ''Knowledge cutoff: '' @ k @ newline | None \<Rightarrow> [])
     @ (case conversation_start_date system_content of
          Some d \<Rightarrow> ''Current date: '' @ d @ newline | None \<Rightarrow> [])
     @ (case sys_tools system_content of
          Some tools \<Rightarrow> newline @ ''Available tools:'' @ newline @ concat (map render_namespace tools)
        | None \<Rightarrow> [])
     @ (case channel_config system_content of
          Some config \<Rightarrow>
            (if channel_required config \<and> valid_channels config \<noteq> []
             then newline @ ''Required channels: '' @ join_channels (valid_channels config) @ newline
             else [])
        | None \<Rightarrow> [])"

definition developer_content_text :: "DeveloperContent \<Rightarrow> string" where
  "developer_content_text dev_content =
     (case instructions dev_content of Some i \<Rightarrow> i @ newline | None \<Rightarrow> [])
     @ (case dev_tools dev_content of
          Some tools \<Rightarrow> newline @ ''Developer tools:'' @ newline @ concat (map render_namespace tools)
        | None \<Rightarrow> [])"

fun render_content :: "CoreBPE \<Rightarrow> Content \<Rightarrow> Rank list" where
  "render_content bpe (TextContent t) = encode_ordinary bpe t"
| "render_content bpe (SystemContent system_content) =
     encode_ordinary bpe (system_content_text system_content)"
| "render_content bpe (DeveloperContent dev_content) =
     encode_ordinary bpe (developer_content_text dev_content)"

text \<open>
  \<^verbatim>\<open>render_message\<close>. The tokens are pushed in this order: \<^verbatim>\<open><|start|>\<close>, the role
  token, \<^verbatim>\<open><|channel|>\<close> and the channel text when a channel is present, the text
  \<^verbatim>\<open>" to=" + recipient\<close> when a recipient is present, \<^verbatim>\<open><|constrain|>\<close> and the content type
  when present, \<^verbatim>\<open><|message|>\<close>, every content, and last
  \<^verbatim>\<open>tokens.push_back(get_special_token("<|end|>"));\<close>
  The argument \<open>config\<close> is not read by the source.
\<close>

definition render_message ::
  "HarmonyEncoding \<Rightarrow> Message \<Rightarrow> RenderConversationConfig option \<Rightarrow> error + Rank list" where
  "render_message enc message config =
     and_then (get_special_token enc ''<|start|>'') (\<lambda>start_token.
     and_then (get_special_token enc (role_to_special_token (role (author message)))) (\<lambda>role_token.
     and_then (case channel message of
                 Some c \<Rightarrow> and_then (get_special_token enc ''<|channel|>'')
                             (\<lambda>t. Inr (t # encode_ordinary (tokenizer enc) c))
               | None \<Rightarrow> Inr []) (\<lambda>channel_tokens.
     and_then (Inr (case recipient message of
                      Some r \<Rightarrow> encode_ordinary (tokenizer enc) ('' to='' @ r)
                    | None \<Rightarrow> [])) (\<lambda>recipient_tokens.
     and_then (case content_type message of
                 Some t \<Rightarrow> and_then (get_special_token enc ''<|constrain|>'')
                             (\<lambda>k. Inr (k # encode_ordinary (tokenizer enc) t))
               | None \<Rightarrow> Inr []) (\<lambda>content_type_tokens.
     and_then (get_special_token enc ''<|message|>'') (\<lambda>message_token.
     and_then (Inr (concat (map (render_content (tokenizer enc)) (content message)))) (\<lambda>content_tokens.
     and_then (get_special_token enc ''<|end|>'') (\<lambda>end_token.
       Inr ([start_token, role_token] @ channel_tokens @ recipient_tokens @ content_type_tokens
            @ [message_token] @ content_tokens @ [end_token])))))))))"

fun render_conversation ::
  "HarmonyEncoding \<Rightarrow> Conversation \<Rightarrow> RenderConversationConfig option \<Rightarrow> error + Rank list" where
  "render_conversation enc [] config = Inr []"
| "render_conversation enc (message # messages) config =
     and_then (render_message enc message config) (\<lambda>message_tokens.
     and_then (render_conversation enc messages config) (\<lambda>tokens.
       Inr (message_tokens @ tokens)))"

text \<open>
  \<^verbatim>\<open>
  for (const auto& message : conversation.messages) { ... render_message ... }
  tokens.push_back(get_special_token("<|start|>"));
  tokens.push_back(get_special_token(role_to_special_token(next_turn_role)));
  \<close>
\<close>

definition render_conversation_for_completion ::
  "HarmonyEncoding \<Rightarrow> Conversation \<Rightarrow> Role \<Rightarrow> RenderConversationConfig option \<Rightarrow> error + Rank list" where
  "render_conversation_for_completion enc conversation next_turn_role config =
     and_then (render_conversation enc conversation config) (\<lambda>tokens.
     and_then (get_special_token enc ''<|start|>'') (\<lambda>start_token.
     and_then (get_special_token enc (role_to_special_token next_turn_role)) (\<lambda>role_token.
       Inr (tokens @ [start_token, role_token]))))"

section \<open>Parsing a finished token sequence (encoding.cpp)\<close>

subsection \<open>The regular expression of parse_harmony_format\<close>

text \<open>
  \<^verbatim>\<open>std::regex\<close> is a backtracking matcher. The pattern of \<^verbatim>\<open>parse_harmony_format\<close> is
  built from literals, greedy \<^verbatim>\<open>+\<close> over a character class, the lazy \<^verbatim>\<open>.*?\<close>, greedy
  optional groups, sequencing and capture groups; these are the constructors. \<open>rmatch\<close>
  tries the alternatives in the matcher's order (a greedy repetition takes the longest run
  first and gives bytes back, an optional group is tried before it is skipped, a lazy
  repetition takes the shortest run first) and hands each candidate end position to the
  continuation, which matches the rest of the pattern.
\<close>

datatype regex =
    Literal string
  | OneOrMore "char \<Rightarrow> bool"
  | LazyAny "char \<Rightarrow> bool"
  | Optional regex
  | Then regex regex
  | Group nat regex

type_synonym captures = "nat \<Rightarrow> string option"

fun star_greedy :: "(char \<Rightarrow> bool) \<Rightarrow> string \<Rightarrow> (string \<Rightarrow> 'a option) \<Rightarrow> 'a option" where
  "star_greedy cls [] k = k []"
| "star_greedy cls (c # cs) k =
     (if cls c
      then (case star_greedy cls cs k of Some x \<Rightarrow> Some x | None \<Rightarrow> k (c # cs))
      else k (c # cs))"

fun plus_greedy :: "(char \<Rightarrow> bool) \<Rightarrow> string \<Rightarrow> (string \<Rightarrow> 'a option) \<Rightarrow> 'a option" where
  "plus_greedy cls [] k = None"
| "plus_greedy cls (c # cs) k = (if cls c then star_greedy cls cs k else None)"

fun star_lazy :: "(char \<Rightarrow> bool) \<Rightarrow> string \<Rightarrow> (string \<Rightarrow> 'a option) \<Rightarrow> 'a option" where
  "star_lazy cls [] k = k []"
| "star_lazy cls (c # cs) k =
     (case k (c # cs) of
        Some x \<Rightarrow> Some x
      | None \<Rightarrow> if cls c then star_lazy cls cs k else None)"

primrec rmatch :: "regex \<Rightarrow> string \<Rightarrow> captures \<Rightarrow> (string \<Rightarrow> captures \<Rightarrow> 'a option) \<Rightarrow> 'a option" where
  "rmatch (Literal l) s caps k =
     (if take (length l) s = l then k (drop (length l) s) caps else None)"
| "rmatch (OneOrMore cls) s caps k = plus_greedy cls s (\<lambda>s'. k s' caps)"
| "rmatch (LazyAny cls) s caps k = star_lazy cls s (\<lambda>s'. k s' caps)"
| "rmatch (Optional r) s caps k =
     (case rmatch r s caps k of Some x \<Rightarrow> Some x | None \<Rightarrow> k s caps)"
| "rmatch (Then r1 r2) s caps k = rmatch r1 s caps (\<lambda>s' caps'. rmatch r2 s' caps' k)"
| "rmatch (Group n r) s caps k =
     rmatch r s caps (\<lambda>s' caps'. k s' (caps'(n \<mapsto> take (length s - length s') s)))"

text \<open>
  \<^verbatim>\<open>std::regex_search\<close> tries the start positions from left to right and returns the first
  match: the text behind the match and the captures.
\<close>

fun regex_search :: "regex \<Rightarrow> string \<Rightarrow> (string \<times> captures) option" where
  "regex_search re [] = rmatch re [] Map.empty (\<lambda>s' caps. Some (s', caps))"
| "regex_search re (c # cs) =
     (case rmatch re (c # cs) Map.empty (\<lambda>s' caps. Some (s', caps)) of
        Some m \<Rightarrow> Some m
      | None \<Rightarrow> regex_search re cs)"

text \<open>
  \<^verbatim>\<open>
  <\|start\|>([^<]+)(?:<\|channel\|>([^<]+))?(?:\s+to=([^<\|]+))?(?:<\|constrain\|>([^<]+))?<\|message\|>(.*?)<\|end\|>
  \<close>
  The dot of the ECMAScript grammar matches every byte but the line terminators.
\<close>

definition not_lt :: "char \<Rightarrow> bool" where
  "not_lt c \<longleftrightarrow> c \<noteq> CHR ''<''"

definition not_lt_bar :: "char \<Rightarrow> bool" where
  "not_lt_bar c \<longleftrightarrow> c \<noteq> CHR ''<'' \<and> c \<noteq> CHR ''|''"

definition any_char :: "char \<Rightarrow> bool" where
  "any_char c \<longleftrightarrow> c \<noteq> CHR 0x0A \<and> c \<noteq> CHR 0x0D"

definition message_regex :: regex where
  "message_regex =
     Then (Literal ''<|start|>'')
    (Then (Group 1 (OneOrMore not_lt))
    (Then (Optional (Then (Literal ''<|channel|>'') (Group 2 (OneOrMore not_lt))))
    (Then (Optional (Then (OneOrMore isspace) (Then (Literal ''to='') (Group 3 (OneOrMore not_lt_bar)))))
    (Then (Optional (Then (Literal ''<|constrain|>'') (Group 4 (OneOrMore not_lt))))
    (Then (Literal ''<|message|>'')
    (Then (Group 5 (LazyAny any_char))
          (Literal ''<|end|>'')))))))"

lemma star_greedy_shorter:
  "star_greedy cls s k = Some x \<Longrightarrow> \<exists>s'. k s' = Some x \<and> length s' \<le> length s"
  by (induction cls s k rule: star_greedy.induct) (auto split: if_splits option.splits intro: le_SucI)

lemma plus_greedy_shorter:
  "plus_greedy cls s k = Some x \<Longrightarrow> \<exists>s'. k s' = Some x \<and> length s' \<le> length s"
  by (cases s) (auto split: if_splits dest!: star_greedy_shorter intro: le_SucI)

lemma star_lazy_shorter:
  "star_lazy cls s k = Some x \<Longrightarrow> \<exists>s'. k s' = Some x \<and> length s' \<le> length s"
  by (induction cls s k rule: star_lazy.induct) (auto split: if_splits option.splits intro: le_SucI)

lemma rmatch_shorter:
  "rmatch re s caps k = Some x \<Longrightarrow> \<exists>s' caps'. k s' caps' = Some x \<and> length s' \<le> length s"
proof (induction re arbitrary: s caps k)
  case (Literal l)
  then show ?case by (auto split: if_splits)
next
  case (OneOrMore cls)
  then show ?case by (auto dest!: plus_greedy_shorter)
next
  case (LazyAny cls)
  then show ?case by (auto dest!: star_lazy_shorter)
next
  case (Optional re)
  then show ?case by (fastforce split: option.splits)
next
  case (Then re1 re2)
  from Then.prems obtain s1 caps1 where
    "rmatch re2 s1 caps1 k = Some x" "length s1 \<le> length s"
    using Then.IH(1) [of s caps "\<lambda>s' caps'. rmatch re2 s' caps' k"] by auto
  with Then.IH(2) [of s1 caps1 k] show ?case
    by (meson order_trans)
next
  case (Group n re)
  then show ?case by fastforce
qed

lemma literal_then_consumes:
  assumes "rmatch (Then (Literal l) rest) s caps k = Some x" and "l \<noteq> []"
  shows "\<exists>s' caps'. k s' caps' = Some x \<and> length s' < length s"
proof -
  from assms(1) have tk: "take (length l) s = l"
    and r: "rmatch rest (drop (length l) s) caps k = Some x"
    by (auto split: if_splits)
  from tk have "length (take (length l) s) = length l" by simp
  then have "length l \<le> length s" by simp
  moreover from assms(2) have "0 < length l" by simp
  ultimately have "length s - length l < length s" by arith
  then have "length (drop (length l) s) < length s" by simp
  with rmatch_shorter [OF r] show ?thesis
    by (meson le_less_trans)
qed

lemma message_regex_match_consumes:
  assumes "rmatch message_regex s caps k = Some x"
  shows "\<exists>s' caps'. k s' caps' = Some x \<and> length s' < length s"
proof -
  obtain rest0 where mr: "message_regex = Then (Literal ''<|start|>'') rest0"
    by (simp add: message_regex_def)
  from assms have "rmatch (Then (Literal ''<|start|>'') rest0) s caps k = Some x"
    by (simp only: mr)
  from literal_then_consumes [OF this] show ?thesis by simp
qed

lemma message_regex_consumes:
  "regex_search message_regex s = Some (rest, caps) \<Longrightarrow> length rest < length s"
proof (induction s)
  case Nil
  then have "rmatch message_regex [] Map.empty (\<lambda>s' caps. Some (s', caps)) = Some (rest, caps)"
    by simp
  from message_regex_match_consumes [OF this] show ?case by simp
next
  case (Cons c cs)
  show ?case
  proof (cases "rmatch message_regex (c # cs) Map.empty (\<lambda>s' caps. Some (s', caps))")
    case None
    with Cons show ?thesis by (auto intro: less_SucI)
  next
    case (Some m)
    with Cons.prems have "rmatch message_regex (c # cs) Map.empty (\<lambda>s' caps. Some (s', caps)) = Some (rest, caps)"
      by simp
    from message_regex_match_consumes [OF this] show ?thesis by simp
  qed
qed

text \<open>
  \<^verbatim>\<open>std::sregex_iterator\<close>: each search starts behind the previous match. A match of
  \<open>message_regex\<close> is never empty, which is the termination argument.
\<close>

function message_matches :: "string \<Rightarrow> captures list" where
  "message_matches s =
     (case regex_search message_regex s of
        None \<Rightarrow> []
      | Some (rest, caps) \<Rightarrow> caps # message_matches rest)"
  by pat_completeness auto
termination
  by (relation "measure length") (auto dest: message_regex_consumes sym)

declare message_matches.simps [simp del]

text \<open>
  The body of the loop over the matches: the role defaults to \<^verbatim>\<open>Role::User\<close>, the
  optional groups set channel, recipient and content type when they matched, and the
  content is one \<^verbatim>\<open>TextContent\<close>.
\<close>

definition role_of_string :: "string \<Rightarrow> Role" where
  "role_of_string role_str =
     (if role_str = ''system'' then System
      else if role_str = ''user'' then User
      else if role_str = ''assistant'' then Assistant
      else if role_str = ''developer'' then Developer
      else if role_str = ''tool'' then Tool
      else User)"

definition message_of_match :: "captures \<Rightarrow> Message" where
  "message_of_match m =
     \<lparr> author = \<lparr> role = role_of_string (case m 1 of Some t \<Rightarrow> t | None \<Rightarrow> []), name = None \<rparr>,
       recipient = m 3,
       content = [TextContent (case m 5 of Some t \<Rightarrow> t | None \<Rightarrow> [])],
       channel = m 2,
       content_type = m 4 \<rparr>"

definition parse_harmony_format :: "string \<Rightarrow> Message list" where
  "parse_harmony_format s = map message_of_match (message_matches s)"

definition parse_messages_from_completion_tokens ::
  "HarmonyEncoding \<Rightarrow> Rank list \<Rightarrow> Role option \<Rightarrow> error + Message list" where
  "parse_messages_from_completion_tokens enc tokens r =
     (case decode_utf8 (tokenizer enc) tokens of
        Inl e \<Rightarrow> Inl e
      | Inr s \<Rightarrow> Inr (parse_harmony_format s))"

section \<open>StreamableParser (encoding.cpp)\<close>

datatype StreamState = ExpectStart | Header | Content

text \<open>
  The members that \<^verbatim>\<open>process\<close>, \<^verbatim>\<open>process_eos\<close> and
  \<^verbatim>\<open>finalize_current_message\<close> read or write, under the names of their accessors.
\<close>

record StreamableParser =
  encoding :: HarmonyEncoding
  next_role :: "Role option"
  tokens :: "Rank list"
  messages :: "Message list"
  state :: StreamState
  last_content_delta :: "string option"
  current_content :: string
  current_role :: "Role option"
  current_channel :: "string option"
  current_recipient :: "string option"
  current_content_type :: "string option"

definition StreamableParser_new :: "HarmonyEncoding \<Rightarrow> Role option \<Rightarrow> StreamableParser" where
  "StreamableParser_new enc r =
     \<lparr> encoding = enc, next_role = r, tokens = [], messages = [], state = ExpectStart,
       last_content_delta = None, current_content = [], current_role = None,
       current_channel = None, current_recipient = None, current_content_type = None \<rparr>"

definition parse_role_from_token :: "string \<Rightarrow> Role option" where
  "parse_role_from_token token =
     (if token = ''<|system|>'' then Some System
      else if token = ''<|user|>'' then Some User
      else if token = ''<|assistant|>'' then Some Assistant
      else if token = ''<|developer|>'' then Some Developer
      else if token = ''<|tool|>'' then Some Tool
      else None)"

text \<open>
  \<^verbatim>\<open>
  if (current_role_) {
      Message message(Author(*current_role_), {TextContent(current_content_)});
      ... channel, recipient, content_type copied when set ...
      messages_.push_back(message);
      current_content_.clear();
      current_role_ = std::nullopt;       current_channel_ = std::nullopt;
      current_recipient_ = std::nullopt;  current_content_type_ = std::nullopt;
  }
  \<close>
\<close>

definition finalize_current_message :: "StreamableParser \<Rightarrow> StreamableParser" where
  "finalize_current_message p =
     (case current_role p of
        Some r \<Rightarrow>
          p \<lparr> messages := messages p @
                 [\<lparr> author = \<lparr> role = r, name = None \<rparr>,
                    recipient = current_recipient p,
                    content = [TextContent (current_content p)],
                    channel = current_channel p,
                    content_type = current_content_type p \<rparr>],
              current_content := [],
              current_role := None,
              current_channel := None,
              current_recipient := None,
              current_content_type := None \<rparr>
      | None \<Rightarrow> p)"

text \<open>
  \<^verbatim>\<open>process\<close>: the token is recorded, decoded on its own with \<^verbatim>\<open>decode_utf8({token})\<close>
  (which may throw), and the text is dispatched on the state. In \<^verbatim>\<open>Content\<close> the
  branches for \<^verbatim>\<open><|channel|>\<close>, \<^verbatim>\<open><|constrain|>\<close> and \<^verbatim>\<open><|message|>\<close> are empty.
  The result is the exception or the parser after the call; when the call throws, the
  object has already recorded the token, and the model gives the exception alone.
\<close>

definition process :: "StreamableParser \<Rightarrow> Rank \<Rightarrow> error + StreamableParser" where
  "process p token =
     (let p1 = p \<lparr> tokens := tokens p @ [token] \<rparr> in
      case decode_utf8 (tokenizer (encoding p1)) [token] of
        Inl e \<Rightarrow> Inl e
      | Inr token_text \<Rightarrow>
          Inr (case state p1 of
                 ExpectStart \<Rightarrow>
                   if token_text = ''<|start|>'' then p1 \<lparr> state := Header \<rparr> else p1
               | Header \<Rightarrow>
                   (let p2 = p1 \<lparr> current_role := parse_role_from_token token_text \<rparr> in
                    if current_role p2 \<noteq> None then p2 \<lparr> state := Content \<rparr> else p2)
               | Content \<Rightarrow>
                   if token_text = ''<|channel|>'' then p1
                   else if token_text = ''<|constrain|>'' then p1
                   else if token_text = ''<|message|>'' then p1
                   else if token_text = ''<|end|>''
                   then (finalize_current_message p1) \<lparr> state := ExpectStart \<rparr>
                   else p1 \<lparr> current_content := current_content p1 @ token_text,
                            last_content_delta := Some token_text \<rparr>))"

definition process_eos :: "StreamableParser \<Rightarrow> StreamableParser" where
  "process_eos p =
     (if state p = Content \<and> current_content p \<noteq> [] then finalize_current_message p else p)"

text \<open>Feeding a token list one token at a time; the first exception ends the feed.\<close>

fun process_all :: "StreamableParser \<Rightarrow> Rank list \<Rightarrow> error + StreamableParser" where
  "process_all p [] = Inr p"
| "process_all p (token # rest) =
     (case process p token of Inl e \<Rightarrow> Inl e | Inr p' \<Rightarrow> process_all p' rest)"

section \<open>Concrete inputs\<close>

text \<open>
  The tool call of the specification's scenario: an assistant message with recipient
  \<^verbatim>\<open>get_weather\<close>, content type \<^verbatim>\<open>json\<close> and body \<^verbatim>\<open>{"location":"NYC"}\<close>.
\<close>

definition tool_call_message :: Message where
  \<open>tool_call_message =
     with_content_type ''json'' (with_recipient ''get_weather''
       (from_role_and_content Assistant (TextContent ''{"location":"NYC"}'')))\<close>

text \<open>
  The streaming scenario of the specification: the text
  \<^verbatim>\<open><|start|>assistant<|channel|>final<|message|>Hi\<close> and its tokens (the encoding is
  \<open>streaming_partial_encoding\<close> below).
\<close>

definition streaming_partial_text :: string where
  "streaming_partial_text = ''<|start|>assistant<|channel|>final<|message|>Hi''"

definition streaming_partial_tokens :: "Rank list" where
  "streaming_partial_tokens =
     [200000, 97, 115, 115, 105, 115, 116, 260, 116, 200003, 102, 258, 97, 108, 200002, 72, 105]"

text \<open>
  A parser in the middle of an assistant message: the state after the tokens of
  \<^verbatim>\<open><|start|><|assistant|><|message|>Hi\<close>.
\<close>

definition open_message_parser :: StreamableParser where
  "open_message_parser =
     (StreamableParser_new load_harmony_encoding (Some Assistant))
       \<lparr> tokens := [200000, 200013, 200002, 72, 105], state := Content,
         last_content_delta := Some ''i'', current_content := ''Hi'',
         current_role := Some Assistant \<rparr>"

text \<open>
  The conversation of the specification's simple scenario, one user message
  \<^verbatim>\<open>Hello\<close>, and the specification's \<^verbatim>\<open>strip_empty\<close> (the source has no such
  function): it drops the messages whose content list is empty.
\<close>

definition hello_conversation :: Conversation where
  "hello_conversation = [from_role_and_content User (TextContent ''Hello'')]"

definition strip_empty :: "Conversation \<Rightarrow> Conversation" where
  "strip_empty c = filter (\<lambda>m. content m \<noteq> []) c"

section \<open>Facts about the harmony tokenizer\<close>

lemma map_of_fold_update:
  "map_of (fold (\<lambda>(k, v) al. AList.update k v al) xs al) = map_of al ++ map_of (rev xs)"
proof (induction xs arbitrary: al)
  case Nil
  then show ?case by simp
next
  case (Cons x xs)
  obtain k v where x: "x = (k, v)" by (cases x)
  show ?case
    by (rule ext) (simp add: x Cons.IH AList.update_conv' map_add_def split: option.splits)
qed

lemma distinct_fold_update:
  "distinct (map fst al) \<Longrightarrow> distinct (map fst (fold (\<lambda>(k, v) al. AList.update k v al) xs al))"
  by (induction xs arbitrary: al) (auto simp: AList.distinct_update)

lemma char_of_eq_iff: "n < 256 \<Longrightarrow> (c = char_of (n::nat)) = (of_char c = n)"
  by (metis char_of_char of_char_of mod_less)

lemma byte_loop_lookup:
  "n \<le> 256 \<Longrightarrow>
   map_of (fold (\<lambda>i enc. AList.update [char_of i] (of_nat i :: Rank) enc) [0 ..< n] []) bs =
     (case bs of [c] \<Rightarrow> if of_char c < n then Some (of_nat (of_char c)) else None | _ \<Rightarrow> None)"
proof (induction n)
  case 0
  then show ?case by (simp split: list.splits)
next
  case (Suc n)
  then have n: "n < 256" by simp
  show ?case using Suc n
    by (auto simp: AList.update_conv' char_of_eq_iff less_Suc_eq split: list.splits)
qed

lemma byte_loop_distinct:
  "distinct (map fst al) \<Longrightarrow>
   distinct (map fst (fold (\<lambda>i enc. AList.update [char_of i] (of_nat i :: Rank) enc) ns al))"
  by (induction ns arbitrary: al) (auto simp: AList.distinct_update)

lemma map_of_rev_distinct: "distinct (map fst xs) \<Longrightarrow> map_of (rev xs) = map_of xs"
  by (rule map_of_inject_set [THEN iffD2]) (simp_all add: rev_map [symmetric])

lemma common_pairs_distinct: "distinct (map fst common_pairs)"
  by (simp add: common_pairs_def)

lemma basic_encoder_lookup:
  "map_of create_basic_encoder bs =
     (case map_of common_pairs bs of
        Some r \<Rightarrow> Some r
      | None \<Rightarrow> (case bs of [c] \<Rightarrow> Some (of_nat (of_char c)) | _ \<Rightarrow> None))"
  by (simp add: create_basic_encoder_def map_of_fold_update map_of_rev_distinct
      common_pairs_distinct map_add_def byte_loop_lookup split: option.splits list.splits)

lemma basic_encoder_distinct: "distinct (map fst create_basic_encoder)"
  unfolding create_basic_encoder_def
  by (rule distinct_fold_update) (simp add: byte_loop_distinct)

lemma invert_into_lookup: "map_of (invert_into m) = map_of (rev (map (\<lambda>(k, v). (v, k)) m))"
proof -
  have "invert_into m = fold (\<lambda>(a, b) d. AList.update a b d) (map (\<lambda>(k, v). (v, k)) m) []"
    by (simp add: invert_into_def fold_map comp_def case_prod_unfold)
  then show ?thesis
    by (simp add: map_of_fold_update rev_map)
qed

lemma invert_into_Some: "map_of (invert_into m) v = Some k \<Longrightarrow> (k, v) \<in> set m"
  by (auto simp: invert_into_lookup dest!: map_of_SomeD)

lemma invert_into_None: "map_of (invert_into m) v = None \<Longrightarrow> v \<notin> snd ` set m"
  by (force simp: invert_into_lookup map_of_eq_None_iff image_iff)

lemma common_pairs_ranks: "(k, r) \<in> set common_pairs \<Longrightarrow> 256 \<le> r \<and> r \<le> 320 \<and> 2 \<le> length k"
  by (auto simp: common_pairs_def)

lemma common_pairs_inj:
  "(k, r) \<in> set common_pairs \<Longrightarrow> (k', r) \<in> set common_pairs \<Longrightarrow> k = k'"
proof -
  have "distinct (map snd common_pairs)" by (simp add: common_pairs_def)
  then show "(k, r) \<in> set common_pairs \<Longrightarrow> (k', r) \<in> set common_pairs \<Longrightarrow> k = k'"
    by (metis distinct_map inj_on_def snd_conv fst_conv)
qed

lemma byte_rank_unat: "unat (of_nat (of_char c) :: Rank) = of_char c"
proof -
  have "(of_char c :: nat) < 256" by (rule nat_of_char_less_256)
  moreover have "(256 :: nat) < 2 ^ LENGTH(32)" by simp
  ultimately have "(of_char c :: nat) < 2 ^ LENGTH(32)" by (rule less_trans)
  then show ?thesis by (simp only: unat_of_nat mod_less)
qed

lemma byte_rank_inj: "(of_nat (of_char c) :: Rank) = of_nat (of_char c') \<Longrightarrow> c = c'"
proof -
  assume "(of_nat (of_char c) :: Rank) = of_nat (of_char c')"
  then have "unat (of_nat (of_char c) :: Rank) = unat (of_nat (of_char c') :: Rank)" by simp
  then have "(of_char c :: nat) = of_char c'" by (simp only: byte_rank_unat)
  then show ?thesis by simp
qed

lemma byte_rank_less: "(of_nat (of_char c) :: Rank) < 256"
proof -
  have "(of_char c :: nat) < 256" by (rule nat_of_char_less_256)
  then have "unat (of_nat (of_char c) :: Rank) < unat (256 :: Rank)"
    by (simp only: byte_rank_unat) simp
  then show ?thesis by (simp only: word_less_nat_alt)
qed

lemma basic_encoder_range: "map_of create_basic_encoder k = Some r \<Longrightarrow> r \<le> 320"
proof (cases "map_of common_pairs k")
  case None
  assume "map_of create_basic_encoder k = Some r"
  with None obtain c where "r = of_nat (of_char c)"
    by (auto simp: basic_encoder_lookup split: list.splits)
  with byte_rank_less [of c] have "r < 256" by simp
  moreover have "(256 :: Rank) \<le> 320" by simp
  ultimately show ?thesis by (metis less_imp_le order_trans)
next
  case (Some a)
  assume "map_of create_basic_encoder k = Some r"
  with Some have "(k, r) \<in> set common_pairs"
    by (auto simp: basic_encoder_lookup dest: map_of_SomeD)
  then show ?thesis by (auto dest: common_pairs_ranks)
qed

lemma basic_encoder_inj:
  assumes "map_of create_basic_encoder k = Some r" and "map_of create_basic_encoder k' = Some r"
  shows "k = k'"
proof (cases "map_of common_pairs k")
  case None
  with assms(1) obtain c where k: "k = [c]" "r = of_nat (of_char c)"
    by (auto simp: basic_encoder_lookup split: list.splits)
  show ?thesis
  proof (cases "map_of common_pairs k'")
    case None
    with assms(2) obtain c' where "k' = [c']" "r = of_nat (of_char c')"
      by (auto simp: basic_encoder_lookup split: list.splits)
    with k show ?thesis by (auto dest: byte_rank_inj)
  next
    case (Some a)
    with assms(2) have "(k', r) \<in> set common_pairs"
      by (auto simp: basic_encoder_lookup dest: map_of_SomeD)
    then have "256 \<le> r" by (auto dest: common_pairs_ranks)
    with k byte_rank_less [of c] show ?thesis by simp
  qed
next
  case (Some a)
  with assms(1) have in1: "(k, r) \<in> set common_pairs"
    by (auto simp: basic_encoder_lookup dest: map_of_SomeD)
  show ?thesis
  proof (cases "map_of common_pairs k'")
    case None
    with assms(2) obtain c' where "k' = [c']" "r = of_nat (of_char c')"
      by (auto simp: basic_encoder_lookup split: list.splits)
    moreover from in1 have "256 \<le> r" by (auto dest: common_pairs_ranks)
    ultimately show ?thesis using byte_rank_less [of c'] by simp
  next
    case (Some b)
    with assms(2) have "(k', r) \<in> set common_pairs"
      by (auto simp: basic_encoder_lookup dest: map_of_SomeD)
    with in1 show ?thesis by (rule common_pairs_inj)
  qed
qed

lemma basic_decoder_inverse:
  assumes "map_of create_basic_encoder k = Some r"
  shows "map_of (invert_into create_basic_encoder) r = Some k"
proof (cases "map_of (invert_into create_basic_encoder) r")
  case None
  then have "r \<notin> snd ` set create_basic_encoder" by (rule invert_into_None)
  moreover from assms have "(k, r) \<in> set create_basic_encoder" by (rule map_of_SomeD)
  ultimately show ?thesis by force
next
  case (Some k')
  then have "(k', r) \<in> set create_basic_encoder" by (rule invert_into_Some)
  with basic_encoder_distinct have "map_of create_basic_encoder k' = Some r" by simp
  with assms have "k = k'" by (rule basic_encoder_inj)
  with Some show ?thesis by simp
qed

lemma harmony_fields [simp]:
  "encoder harmony_tokenizer = create_basic_encoder"
  "decoder harmony_tokenizer = invert_into create_basic_encoder"
  "special_tokens_encoder harmony_tokenizer = create_harmony_special_tokens"
  "special_tokens_decoder harmony_tokenizer = invert_into create_harmony_special_tokens"
  "regex_tls harmony_tokenizer = fallback_regex"
  by (simp_all add: harmony_tokenizer_def CoreBPE_new_def)

lemma decode_bytes_append:
  "decode_bytes bpe (xs @ ys) =
     (case decode_bytes bpe xs of
        Inl e \<Rightarrow> Inl e
      | Inr a \<Rightarrow> (case decode_bytes bpe ys of Inl e \<Rightarrow> Inl e | Inr b \<Rightarrow> Inr (a @ b)))"
  by (induction xs) (auto split: option.splits sum.splits)

lemma decode_found_parts:
  assumes "\<And>part. part \<in> set parts \<Longrightarrow> map_of create_basic_encoder part \<noteq> None"
  shows "decode_bytes harmony_tokenizer
           (concat (map (\<lambda>part. case map_of create_basic_encoder part of
                                   Some r \<Rightarrow> [r] | None \<Rightarrow> other part) parts))
         = Inr (concat parts)"
  using assms
proof (induction parts)
  case Nil
  then show ?case by simp
next
  case (Cons p parts)
  from Cons.prems obtain r where r: "map_of create_basic_encoder p = Some r" by auto
  then have "map_of (invert_into create_basic_encoder) r = Some p" by (rule basic_decoder_inverse)
  with r Cons show ?case by simp
qed

lemma rebuild_parts_concat:
  "i \<le> merge_pos \<Longrightarrow> merge_pos - i + 1 < length ps \<Longrightarrow>
     concat (rebuild_parts i merge_pos (ps ! (merge_pos - i) @ ps ! (merge_pos - i + 1)) ps) = concat ps"
proof (induction ps arbitrary: i)
  case Nil
  then show ?case by simp
next
  case (Cons p ps)
  show ?case
  proof (cases "i = merge_pos")
    case True
    with Cons.prems show ?thesis
      by (cases ps) (simp_all add: rebuild_parts_skip)
  next
    case False
    with Cons.prems have le: "i + 1 \<le> merge_pos" "merge_pos - (i + 1) + 1 < length ps"
      by auto
    then have "merge_pos - i = Suc (merge_pos - (i + 1))" by arith
    with Cons.IH [OF le] False Cons.prems show ?thesis by simp
  qed
qed

lemma apply_best_merge_concat:
  "concat (apply_best_merge merges (single_bytes piece)) = piece"
proof -
  have "concat (single_bytes piece) = piece"
    by (induction piece) (simp_all add: single_bytes_def)
  then show ?thesis
    using rebuild_parts_concat [of 0 "fst (hd (sort_key snd merges))" "single_bytes piece"]
    by (simp add: apply_best_merge_def Let_def)
qed

lemma single_byte_present: "map_of create_basic_encoder [c] \<noteq> None"
  by (simp add: basic_encoder_lookup split: option.splits)

lemma byte_pair_encode_lossless:
  "decode_bytes harmony_tokenizer (byte_pair_encode piece create_basic_encoder) = Inr piece"
proof (cases "length piece = 1")
  case True
  then obtain c where c: "piece = [c]" by (cases piece) auto
  then obtain r where r: "map_of create_basic_encoder piece = Some r"
    using single_byte_present [of c] by auto
  then have "map_of (invert_into create_basic_encoder) r = Some piece" by (rule basic_decoder_inverse)
  with True r show ?thesis by (simp add: byte_pair_encode.simps)
next
  case False
  show ?thesis
  proof (cases "byte_pair_merge create_basic_encoder piece = []")
    case True
    have "decode_bytes harmony_tokenizer
            (concat (map (\<lambda>part. case map_of create_basic_encoder part of
                                    Some r \<Rightarrow> [r] | None \<Rightarrow> []) (single_bytes piece)))
          = Inr (concat (single_bytes piece))"
      using single_byte_present by (intro decode_found_parts) (auto simp: single_bytes_def)
    moreover have "concat (single_bytes piece) = piece"
      by (induction piece) (simp_all add: single_bytes_def)
    ultimately show ?thesis using True False
      by (simp add: byte_pair_encode.simps single_bytes_def comp_def)
  next
    case ne: False
    have "decode_bytes harmony_tokenizer
            (concat (map (\<lambda>part. case map_of create_basic_encoder part of
                                    Some r \<Rightarrow> [r]
                                  | None \<Rightarrow> byte_pair_encode part create_basic_encoder)
                      (apply_best_merge (byte_pair_merge create_basic_encoder piece) (single_bytes piece))))
          = Inr (concat (apply_best_merge (byte_pair_merge create_basic_encoder piece) (single_bytes piece)))"
    proof (rule decode_found_parts)
      fix part
      assume "part \<in> set (apply_best_merge (byte_pair_merge create_basic_encoder piece) (single_bytes piece))"
      with ne have "length part = 1 \<or> map_of create_basic_encoder part \<noteq> None"
        using apply_best_merge_parts by blast
      then show "map_of create_basic_encoder part \<noteq> None"
      proof
        assume "length part = 1"
        then obtain c where "part = [c]" by (cases part) auto
        then show ?thesis by (simp add: single_byte_present)
      qed
    qed
    with False ne show ?thesis
      by (subst byte_pair_encode.simps) (simp add: apply_best_merge_concat)
  qed
qed

lemma fallback_regex_concat: "concat (fallback_regex text) = text"
  by (induction "text" rule: fallback_regex.induct) simp_all

lemma encode_ordinary_pieces_lossless:
  "decode_bytes harmony_tokenizer
     (concat (map (\<lambda>piece. byte_pair_encode piece create_basic_encoder) pieces)) = Inr (concat pieces)"
  by (induction pieces) (simp_all add: decode_bytes_append byte_pair_encode_lossless)

lemma byte_pair_encode_basic:
  "byte_pair_encode piece create_basic_encoder =
     (if length piece = 1
      then (case map_of create_basic_encoder piece of Some r \<Rightarrow> [r] | None \<Rightarrow> [])
      else
        (let merges = byte_pair_merge create_basic_encoder piece in
         if merges = []
         then concat (map (\<lambda>byte. case map_of create_basic_encoder [byte] of
                                    Some r \<Rightarrow> [r] | None \<Rightarrow> []) piece)
         else concat (map (\<lambda>part. case map_of create_basic_encoder part of
                                    Some r \<Rightarrow> [r] | None \<Rightarrow> [])
                       (apply_best_merge merges (single_bytes piece)))))"
proof -
  have eq: "map (\<lambda>part. case map_of create_basic_encoder part of
                      Some r \<Rightarrow> [r] | None \<Rightarrow> byte_pair_encode part create_basic_encoder)
            (apply_best_merge (byte_pair_merge create_basic_encoder piece) (single_bytes piece))
      = map (\<lambda>part. case map_of create_basic_encoder part of Some r \<Rightarrow> [r] | None \<Rightarrow> [])
            (apply_best_merge (byte_pair_merge create_basic_encoder piece) (single_bytes piece))"
    if "byte_pair_merge create_basic_encoder piece \<noteq> []"
  proof (rule map_cong [OF refl])
    fix part
    assume "part \<in> set (apply_best_merge (byte_pair_merge create_basic_encoder piece) (single_bytes piece))"
    with that have "length part = 1 \<or> map_of create_basic_encoder part \<noteq> None"
      using apply_best_merge_parts by blast
    then have "map_of create_basic_encoder part \<noteq> None"
    proof
      assume "length part = 1"
      then obtain c where "part = [c]" by (cases part) auto
      then show ?thesis by (simp add: single_byte_present)
    qed
    then show "(case map_of create_basic_encoder part of
                  Some r \<Rightarrow> [r] | None \<Rightarrow> byte_pair_encode part create_basic_encoder)
             = (case map_of create_basic_encoder part of Some r \<Rightarrow> [r] | None \<Rightarrow> [])"
      by (auto split: option.splits)
  qed
  show ?thesis
    by (subst byte_pair_encode.simps) (simp add: Let_def eq)
qed

lemmas tok_eval = encode_ordinary_def isspace_def byte_pair_encode_basic byte_pair_merge_def
  basic_encoder_lookup common_pairs_def apply_best_merge_def single_bytes_def



lemma byte_pair_encode_ranks:
  "r \<in> set (byte_pair_encode piece ranks) \<Longrightarrow> \<exists>k. map_of ranks k = Some r"
proof (induction piece ranks rule: byte_pair_encode.induct)
  case (1 piece ranks)
  show ?case
  proof (cases "length piece = 1")
    case True
    with "1.prems" show ?thesis
      by (subst (asm) byte_pair_encode.simps) (auto split: option.splits)
  next
    case False
    show ?thesis
    proof (cases "byte_pair_merge ranks piece = []")
      case True
      with False "1.prems" show ?thesis
        by (subst (asm) byte_pair_encode.simps) (auto split: option.splits)
    next
      case ne: False
      from "1.prems" False ne obtain part where
        part: "part \<in> set (apply_best_merge (byte_pair_merge ranks piece) (single_bytes piece))"
        and r: "r \<in> set (case map_of ranks part of Some r \<Rightarrow> [r] | None \<Rightarrow> byte_pair_encode part ranks)"
        by (subst (asm) byte_pair_encode.simps) (auto simp: Let_def)
      show ?thesis
      proof (cases "map_of ranks part")
        case None
        with r have "r \<in> set (byte_pair_encode part ranks)" by simp
        with "1.IH" [OF False refl ne part None] show ?thesis .
      next
        case (Some a)
        with r show ?thesis by auto
      qed
    qed
  qed
qed

lemma harmony_special_ranks:
  "(k, r) \<in> set create_harmony_special_tokens \<Longrightarrow> 200000 \<le> r \<and> r \<le> 200015"
  by (auto simp: create_harmony_special_tokens_def)

lemma is_special_token_range:
  "is_special_token harmony_tokenizer r \<Longrightarrow> 200000 \<le> r \<and> r \<le> 200015"
proof -
  assume "is_special_token harmony_tokenizer r"
  then obtain k where "map_of (invert_into create_harmony_special_tokens) r = Some k"
    by (auto simp: is_special_token_def)
  then have "(k, r) \<in> set create_harmony_special_tokens" by (rule invert_into_Some)
  then show ?thesis by (rule harmony_special_ranks)
qed

section \<open>Properties of ordinary encoding\<close>

text \<open>
  C2. Encoding is lossless: for every byte string \<open>s\<close>, decoding to bytes the rank list
  that \<open>encode_ordinary\<close> returns over the loaded harmony vocabulary gives \<open>s\<close> back,
  byte for byte, and the decoder raises no error.
\<close>

theorem encode_ordinary_lossless:
  "decode_bytes harmony_tokenizer (encode_ordinary harmony_tokenizer s) = Inr s"
  by (simp add: encode_ordinary_def encode_ordinary_pieces_lossless fallback_regex_concat)

text \<open>
  C3. For every input string, every rank in the list produced by \<open>encode_ordinary\<close> lies
  outside the reserved special-token range: it is at most 320, hence below the first
  reserved rank 200000, and it is not a special token of the tokenizer.
\<close>

theorem encode_ordinary_never_reserved:
  assumes "r \<in> set (encode_ordinary harmony_tokenizer s)"
  shows "r \<le> 320 \<and> r < 200000 \<and> \<not> is_special_token harmony_tokenizer r"
proof -
  from assms obtain piece where "r \<in> set (byte_pair_encode piece create_basic_encoder)"
    by (auto simp: encode_ordinary_def)
  then obtain k where "map_of create_basic_encoder k = Some r"
    using byte_pair_encode_ranks by blast
  then have le: "r \<le> 320" by (rule basic_encoder_range)
  moreover have "(320 :: Rank) < 200000" by simp
  ultimately have lt: "r < 200000" by (rule le_less_trans)
  then have "\<not> is_special_token harmony_tokenizer r"
    using is_special_token_range [of r] by auto
  with le lt show ?thesis by simp
qed

theorem encode_ordinary_never_reserved_witness:
  "256 \<in> set (encode_ordinary harmony_tokenizer ''the'')
   \<and> (256 :: Rank) \<le> 320 \<and> (256 :: Rank) < 200000 \<and> \<not> is_special_token harmony_tokenizer 256"
proof -
  have h: "256 \<in> set (encode_ordinary harmony_tokenizer ''the'')"
    by (simp add: tok_eval)
  from encode_ordinary_never_reserved [OF h] h show ?thesis by simp
qed


text \<open>
  Both properties do not depend on which pattern the tokenizer runs on: the ranks come
  from the ordinary encoder whatever the pieces are, and decoding gives the text back
  for any compiled pattern whose successive matches cover the text.
\<close>

lemma decode_bytes_same_decoders:
  "decoder bpe = decoder bpe' \<Longrightarrow> special_tokens_decoder bpe = special_tokens_decoder bpe' \<Longrightarrow>
     decode_bytes bpe ts = decode_bytes bpe' ts"
  by (induction ts) (simp_all split: option.splits)

lemma encode_ordinary_lossless_any_pattern:
  assumes "concat (main_regex s) = s"
  shows "decode_bytes (CoreBPE_new create_basic_encoder create_harmony_special_tokens (Some main_regex))
           (encode_ordinary
              (CoreBPE_new create_basic_encoder create_harmony_special_tokens (Some main_regex)) s)
         = Inr s"
proof -
  have "decode_bytes (CoreBPE_new create_basic_encoder create_harmony_special_tokens (Some main_regex)) ts
      = decode_bytes harmony_tokenizer ts" for ts
    by (rule decode_bytes_same_decoders) (simp_all add: CoreBPE_new_def)
  with assms show ?thesis
    by (simp add: encode_ordinary_def CoreBPE_new_def encode_ordinary_pieces_lossless)
qed

lemma encode_ordinary_ranks_any_pattern:
  assumes "encoder bpe = create_basic_encoder" and "r \<in> set (encode_ordinary bpe s)"
  shows "r \<le> 320"
proof -
  from assms obtain piece where "r \<in> set (byte_pair_encode piece create_basic_encoder)"
    by (auto simp: encode_ordinary_def)
  then obtain k where "map_of create_basic_encoder k = Some r"
    using byte_pair_encode_ranks by blast
  then show ?thesis by (rule basic_encoder_range)
qed


section \<open>The special-token scanner\<close>

lemma find_special_mem:
  "find_special xs A rest = Some (tok, rank) \<Longrightarrow> (tok, rank) \<in> set xs"
  by (induction xs A rest rule: find_special.induct) (auto split: if_splits)

lemma find_special_empty_allowed:
  "fst ` set xs \<subseteq> A \<Longrightarrow> find_special xs A rest = find_special xs {} rest"
  by (induction xs A rest rule: find_special.induct) auto

lemma scan_specials_returns:
  assumes ne: "\<And>tok rank. (tok, rank) \<in> set (special_tokens_encoder bpe) \<Longrightarrow> tok \<noteq> []"
  shows "\<exists>r. scan_specials bpe A before rest result n = Some r"
proof (induction rest arbitrary: before result n rule: length_induct)
  case (1 rest)
  show ?case
  proof (cases rest)
    case Nil
    then show ?thesis by (subst scan_specials.simps) simp
  next
    case (Cons c cs)
    show ?thesis
    proof (cases "find_special (special_tokens_encoder bpe) A rest")
      case None
      from 1 Cons have "\<exists>r. scan_specials bpe A (before @ [c]) cs result n = Some r"
        by simp
      with None Cons show ?thesis by (subst scan_specials.simps) simp
    next
      case (Some found)
      obtain tok rank where found: "found = (tok, rank)" by (cases found)
      with Some have "tok \<noteq> []" using find_special_mem ne by blast
      with Cons have "length (drop (length tok) rest) < length rest" by (cases tok) simp_all
      with 1 have "\<exists>r. scan_specials bpe A [] (drop (length tok) rest)
          ((if before \<noteq> [] then result @ encode_ordinary bpe before else result) @ [rank]) 1 = Some r"
        by blast
      with Some found Cons show ?thesis by (subst scan_specials.simps) simp
    qed
  qed
qed

lemma scan_specials_empty_allowed:
  assumes ne: "\<And>tok rank. (tok, rank) \<in> set (special_tokens_encoder bpe) \<Longrightarrow> tok \<noteq> []"
    and all: "fst ` set (special_tokens_encoder bpe) \<subseteq> A"
  shows "scan_specials bpe {} before rest result n = scan_specials bpe A before rest result n"
proof (induction rest arbitrary: before result n rule: length_induct)
  case (1 rest)
  have fs: "find_special (special_tokens_encoder bpe) A rest
      = find_special (special_tokens_encoder bpe) {} rest"
    using all by (rule find_special_empty_allowed)
  show ?case
  proof (cases rest)
    case Nil
    then show ?thesis
      by (subst scan_specials.simps, subst (2) scan_specials.simps) simp
  next
    case (Cons c cs)
    show ?thesis
    proof (cases "find_special (special_tokens_encoder bpe) {} rest")
      case None
      from 1 Cons have "scan_specials bpe {} (before @ [c]) cs result n
          = scan_specials bpe A (before @ [c]) cs result n"
        by simp
      with None fs Cons show ?thesis
        by (subst scan_specials.simps, subst (2) scan_specials.simps) simp
    next
      case (Some found)
      obtain tok rank where found: "found = (tok, rank)" by (cases found)
      with Some have "tok \<noteq> []" using find_special_mem ne by blast
      with Cons have "length (drop (length tok) rest) < length rest" by (cases tok) simp_all
      with 1 have "scan_specials bpe {} [] (drop (length tok) rest)
          ((if before \<noteq> [] then result @ encode_ordinary bpe before else result) @ [rank]) 1
        = scan_specials bpe A [] (drop (length tok) rest)
          ((if before \<noteq> [] then result @ encode_ordinary bpe before else result) @ [rank]) 1"
        by blast
      with Some found fs Cons show ?thesis
        by (subst scan_specials.simps, subst (2) scan_specials.simps) simp
    qed
  qed
qed

lemma harmony_literals_nonempty:
  "(tok, rank) \<in> set (special_tokens_encoder harmony_tokenizer) \<Longrightarrow> tok \<noteq> []"
  by (auto simp: create_harmony_special_tokens_def)

lemma find_special_None_iff:
  "find_special xs {} t = None \<longleftrightarrow> (\<forall>(l, r) \<in> set xs. take (length l) t \<noteq> l)"
proof (induction xs)
  case Nil
  then show ?case by simp
next
  case (Cons x xs)
  obtain l r where x: "x = (l, r)" by (cases x)
  show ?case
  proof (cases "take (length l) t = l")
    case True
    then show ?thesis by (auto simp: x)
  next
    case False
    with Cons show ?thesis by (simp add: x)
  qed
qed

lemma find_special_literals:
  "find_special create_harmony_special_tokens {} (''<|start|>'' @ rest) = Some (''<|start|>'', 200000)"
  "find_special create_harmony_special_tokens {} (''<|end|>'' @ rest) = Some (''<|end|>'', 200001)"
  "find_special create_harmony_special_tokens {} (''<|message|>'' @ rest) = Some (''<|message|>'', 200002)"
  "find_special create_harmony_special_tokens {} (''<|channel|>'' @ rest) = Some (''<|channel|>'', 200003)"
  "find_special create_harmony_special_tokens {} (''<|constrain|>'' @ rest) = Some (''<|constrain|>'', 200004)"
  "find_special create_harmony_special_tokens {} (''<|call|>'' @ rest) = Some (''<|call|>'', 200005)"
  "find_special create_harmony_special_tokens {} (''<|reasoning|>'' @ rest) = Some (''<|reasoning|>'', 200006)"
  "find_special create_harmony_special_tokens {} (''<|thinking|>'' @ rest) = Some (''<|thinking|>'', 200007)"
  "find_special create_harmony_special_tokens {} (''<|analysis|>'' @ rest) = Some (''<|analysis|>'', 200008)"
  "find_special create_harmony_special_tokens {} (''<|commentary|>'' @ rest) = Some (''<|commentary|>'', 200009)"
  "find_special create_harmony_special_tokens {} (''<|final|>'' @ rest) = Some (''<|final|>'', 200010)"
  "find_special create_harmony_special_tokens {} (''<|system|>'' @ rest) = Some (''<|system|>'', 200011)"
  "find_special create_harmony_special_tokens {} (''<|user|>'' @ rest) = Some (''<|user|>'', 200012)"
  "find_special create_harmony_special_tokens {} (''<|assistant|>'' @ rest) = Some (''<|assistant|>'', 200013)"
  "find_special create_harmony_special_tokens {} (''<|developer|>'' @ rest) = Some (''<|developer|>'', 200014)"
  "find_special create_harmony_special_tokens {} (''<|tool|>'' @ rest) = Some (''<|tool|>'', 200015)"
  by (simp_all add: create_harmony_special_tokens_def)

lemma find_special_literal:
  assumes "(lit, rank) \<in> set create_harmony_special_tokens"
  shows "find_special create_harmony_special_tokens {} (lit @ rest) = Some (lit, rank)"
proof -
  from assms have
     "(lit = ''<|start|>'' \<and> rank = 200000) \<or>
      (lit = ''<|end|>'' \<and> rank = 200001) \<or>
      (lit = ''<|message|>'' \<and> rank = 200002) \<or>
      (lit = ''<|channel|>'' \<and> rank = 200003) \<or>
      (lit = ''<|constrain|>'' \<and> rank = 200004) \<or>
      (lit = ''<|call|>'' \<and> rank = 200005) \<or>
      (lit = ''<|reasoning|>'' \<and> rank = 200006) \<or>
      (lit = ''<|thinking|>'' \<and> rank = 200007) \<or>
      (lit = ''<|analysis|>'' \<and> rank = 200008) \<or>
      (lit = ''<|commentary|>'' \<and> rank = 200009) \<or>
      (lit = ''<|final|>'' \<and> rank = 200010) \<or>
      (lit = ''<|system|>'' \<and> rank = 200011) \<or>
      (lit = ''<|user|>'' \<and> rank = 200012) \<or>
      (lit = ''<|assistant|>'' \<and> rank = 200013) \<or>
      (lit = ''<|developer|>'' \<and> rank = 200014) \<or>
      (lit = ''<|tool|>'' \<and> rank = 200015)"
    by (simp add: create_harmony_special_tokens_def)
  then show ?thesis
    by (elim disjE conjE; simp only: find_special_literals)
qed

lemma scan_specials_skip:
  assumes "\<And>i. i < length pre \<Longrightarrow>
      find_special (special_tokens_encoder bpe) A (drop i (pre @ tail)) = None"
  shows "scan_specials bpe A before (pre @ tail) result n
       = scan_specials bpe A (before @ pre) tail result n"
  using assms
proof (induction pre arbitrary: before)
  case Nil
  then show ?case by simp
next
  case (Cons x pre)
  from Cons.prems [of 0] have none: "find_special (special_tokens_encoder bpe) A (x # pre @ tail) = None"
    by simp
  have "\<And>i. i < length pre \<Longrightarrow>
      find_special (special_tokens_encoder bpe) A (drop i (pre @ tail)) = None"
    using Cons.prems [of "Suc _"] by simp
  from Cons.IH [OF this] have "scan_specials bpe A (before @ [x]) (pre @ tail) result n
       = scan_specials bpe A ((before @ [x]) @ pre) tail result n" .
  moreover have "scan_specials bpe A before ((x # pre) @ tail) result n
       = scan_specials bpe A (before @ [x]) (pre @ tail) result n"
    by (rule trans [OF scan_specials.simps]) (simp add: none)
  ultimately show ?case by simp
qed

lemma scan_specials_accumulates:
  assumes ne: "\<And>tok rank. (tok, rank) \<in> set (special_tokens_encoder bpe) \<Longrightarrow> tok \<noteq> []"
  shows "map_option fst (scan_specials bpe A before rest (acc @ result) n)
       = map_option (\<lambda>t. acc @ fst t) (scan_specials bpe A before rest result m)"
proof (induction rest arbitrary: before result n m rule: length_induct)
  case (1 rest)
  show ?case
  proof (cases rest)
    case Nil
    have "scan_specials bpe A before rest (acc @ result) n
        = (if before \<noteq> []
           then Some ((acc @ result) @ encode_ordinary bpe before, length (encode_ordinary bpe before))
           else Some (acc @ result, n))"
      by (rule trans [OF scan_specials.simps]) (simp add: Nil)
    moreover have "scan_specials bpe A before rest result m
        = (if before \<noteq> []
           then Some (result @ encode_ordinary bpe before, length (encode_ordinary bpe before))
           else Some (result, m))"
      by (rule trans [OF scan_specials.simps]) (simp add: Nil)
    ultimately show ?thesis by simp
  next
    case (Cons c cs)
    show ?thesis
    proof (cases "find_special (special_tokens_encoder bpe) A rest")
      case None
      have "scan_specials bpe A before rest (acc @ result) n
          = scan_specials bpe A (before @ [c]) cs (acc @ result) n"
        by (rule trans [OF scan_specials.simps]) (simp add: Cons None [unfolded Cons])
      moreover have "scan_specials bpe A before rest result m
          = scan_specials bpe A (before @ [c]) cs result m"
        by (rule trans [OF scan_specials.simps]) (simp add: Cons None [unfolded Cons])
      moreover from 1 Cons have "map_option fst (scan_specials bpe A (before @ [c]) cs (acc @ result) n)
          = map_option (\<lambda>t. acc @ fst t) (scan_specials bpe A (before @ [c]) cs result m)"
        by simp
      ultimately show ?thesis by simp
    next
      case (Some found)
      obtain tok rank where found: "found = (tok, rank)" by (cases found)
      with Some have "tok \<noteq> []" using find_special_mem ne by blast
      with Cons have "length (drop (length tok) rest) < length rest" by (cases tok) simp_all
      with 1 have ih: "map_option fst (scan_specials bpe A [] (drop (length tok) rest)
            (acc @ ((if before \<noteq> [] then result @ encode_ordinary bpe before else result) @ [rank])) 1)
        = map_option (\<lambda>t. acc @ fst t) (scan_specials bpe A [] (drop (length tok) rest)
            ((if before \<noteq> [] then result @ encode_ordinary bpe before else result) @ [rank]) 1)"
        by blast
      have "scan_specials bpe A before rest (acc @ result) n
          = scan_specials bpe A [] (drop (length tok) rest)
              (acc @ ((if before \<noteq> [] then result @ encode_ordinary bpe before else result) @ [rank])) 1"
        by (rule trans [OF scan_specials.simps])
           (simp add: Cons Some [unfolded Cons found])
      moreover have "scan_specials bpe A before rest result m
          = scan_specials bpe A [] (drop (length tok) rest)
              ((if before \<noteq> [] then result @ encode_ordinary bpe before else result) @ [rank]) 1"
        by (rule trans [OF scan_specials.simps])
           (simp add: Cons Some [unfolded Cons found])
      ultimately show ?thesis using ih by simp
    qed
  qed
qed

lemma encode_ordinary_empty: "encode_ordinary harmony_tokenizer [] = []"
  by (simp add: encode_ordinary_def)

lemma encode_leftmost_special:
  assumes lit: "(lit, rank) \<in> set create_harmony_special_tokens"
    and pre: "\<forall>i < length pre. \<forall>(l, r) \<in> set create_harmony_special_tokens.
                 take (length l) (drop i (pre @ lit @ rest)) \<noteq> l"
  shows "map_option fst (encode harmony_tokenizer (pre @ lit @ rest) {})
       = map_option (\<lambda>t. encode_ordinary harmony_tokenizer pre @ [rank] @ fst t)
           (encode harmony_tokenizer rest {})"
proof -
  from lit have "lit \<noteq> []" using harmony_literals_nonempty by simp
  then obtain c tail where ct: "lit @ rest = c # tail" by (cases lit) auto
  have skip: "scan_specials harmony_tokenizer {} [] (pre @ c # tail) [] 0
      = scan_specials harmony_tokenizer {} ([] @ pre) (c # tail) [] 0"
  proof (rule scan_specials_skip [where tail = "c # tail"])
    fix i assume "i < length pre"
    with pre ct show "find_special (special_tokens_encoder harmony_tokenizer) {}
        (drop i (pre @ c # tail)) = None"
      by (simp add: find_special_None_iff)
  qed
  have found: "find_special create_harmony_special_tokens {} (c # tail) = Some (lit, rank)"
    using find_special_literal [OF lit, of rest] ct by simp
  have dr: "drop (length lit) (c # tail) = rest"
    using ct by (metis append_eq_conv_conj)
  have step: "scan_specials harmony_tokenizer {} pre (c # tail) [] 0
      = scan_specials harmony_tokenizer {} [] rest
          ((encode_ordinary harmony_tokenizer pre @ [rank]) @ []) 1"
    by (rule trans [OF scan_specials.simps]) (simp add: found dr encode_ordinary_empty)
  have acc: "map_option fst (scan_specials harmony_tokenizer {} [] rest
          ((encode_ordinary harmony_tokenizer pre @ [rank]) @ []) 1)
      = map_option (\<lambda>t. (encode_ordinary harmony_tokenizer pre @ [rank]) @ fst t)
          (scan_specials harmony_tokenizer {} [] rest [] 0)"
    by (rule scan_specials_accumulates) (simp add: harmony_literals_nonempty)
  have ne: "special_tokens_encoder harmony_tokenizer \<noteq> []"
    by (simp add: create_harmony_special_tokens_def)
  have "encode harmony_tokenizer (pre @ lit @ rest) {}
      = scan_specials harmony_tokenizer {} [] (pre @ c # tail) [] 0"
    using ne ct by (simp only: encode_def if_False)
  moreover have "encode harmony_tokenizer rest {} = scan_specials harmony_tokenizer {} [] rest [] 0"
    using ne by (simp only: encode_def if_False)
  ultimately show ?thesis
    using skip step acc by simp
qed

lemma encode_harmony_scan:
  "encode harmony_tokenizer s A = scan_specials harmony_tokenizer A [] s [] 0"
  by (simp add: encode_def create_harmony_special_tokens_def)

lemma encode_without_special:
  assumes "\<forall>i < length s. \<forall>(l, r) \<in> set create_harmony_special_tokens.
             take (length l) (drop i s) \<noteq> l"
  shows "map_option fst (encode harmony_tokenizer s {}) = Some (encode_ordinary harmony_tokenizer s)"
proof -
  have "scan_specials harmony_tokenizer {} [] (s @ []) [] 0
      = scan_specials harmony_tokenizer {} ([] @ s) [] [] 0"
  proof (rule scan_specials_skip)
    fix i assume "i < length s"
    with assms show "find_special (special_tokens_encoder harmony_tokenizer) {} (drop i (s @ [])) = None"
      by (simp add: find_special_None_iff)
  qed
  moreover have "scan_specials harmony_tokenizer {} s [] [] 0
      = (if s \<noteq> []
         then Some ([] @ encode_ordinary harmony_tokenizer s, length (encode_ordinary harmony_tokenizer s))
         else Some ([], 0))"
    by (rule trans [OF scan_specials.simps]) simp
  moreover have "special_tokens_encoder harmony_tokenizer \<noteq> []"
    by (simp add: create_harmony_special_tokens_def)
  ultimately show ?thesis
    by (simp add: encode_def encode_ordinary_empty)
qed

text \<open>
  C5 (as stated in the specification: with an empty allowed set no special literal is
  recognized and no reserved rank appears). The source tests
  \<^verbatim>\<open>allowed_special.count(special_token) > 0 || allowed_special.empty()\<close>, so the empty
  set allows every literal: the text \<^verbatim>\<open><|start|>\<close> with the empty set is encoded as the
  one reserved rank 200000, itself a special token.
\<close>

theorem encode_empty_allowed_recognizes_special:
  "encode harmony_tokenizer ''<|start|>'' {} = Some ([200000], 1)
   \<and> is_special_token harmony_tokenizer 200000"
  by (simp add: encode_def scan_specials.simps create_harmony_special_tokens_def
      is_special_token_def invert_into_def)

text \<open>
  C5, amended. For every input string, \<open>encode\<close> with an empty allowed-special set
  returns, and returns what \<open>encode\<close> returns when every special literal of the
  vocabulary is allowed: the empty set stands for all literals. A text in which no
  special literal occurs is encoded as \<open>encode_ordinary\<close> encodes it. In a text
  \<open>pre @ lit @ rest\<close> where \<open>lit\<close> is a special literal and no special literal starts
  inside \<open>pre\<close>, the literal is recognized and emitted as its reserved rank: the
  result is the ordinary encoding of \<open>pre\<close>, the rank of \<open>lit\<close>, and the encoding of
  \<open>rest\<close> by the same call, so every further occurrence is treated the same way.
\<close>

theorem encode_empty_allowed_is_all_allowed:
  "encode harmony_tokenizer s {} = encode harmony_tokenizer s (special_tokens harmony_tokenizer)
   \<and> (\<exists>r. encode harmony_tokenizer s {} = Some r)
   \<and> ((\<forall>i < length s. \<forall>(l, r) \<in> set create_harmony_special_tokens.
          take (length l) (drop i s) \<noteq> l)
      \<longrightarrow> map_option fst (encode harmony_tokenizer s {}) = Some (encode_ordinary harmony_tokenizer s))
   \<and> ((lit, rank) \<in> set create_harmony_special_tokens
       \<and> (\<forall>i < length pre. \<forall>(l, r) \<in> set create_harmony_special_tokens.
             take (length l) (drop i (pre @ lit @ rest)) \<noteq> l)
      \<longrightarrow> (\<exists>toks n. encode harmony_tokenizer rest {} = Some (toks, n)
            \<and> map_option fst (encode harmony_tokenizer (pre @ lit @ rest) {})
                = Some (encode_ordinary harmony_tokenizer pre @ [rank] @ toks)))"
proof (intro conjI impI)
  have "scan_specials harmony_tokenizer {} [] s [] 0
      = scan_specials harmony_tokenizer (special_tokens harmony_tokenizer) [] s [] 0"
    by (rule scan_specials_empty_allowed) (simp_all add: harmony_literals_nonempty special_tokens_def)
  then show "encode harmony_tokenizer s {} = encode harmony_tokenizer s (special_tokens harmony_tokenizer)"
    by (simp add: encode_def)
next
  have "\<exists>r. scan_specials harmony_tokenizer {} [] s [] 0 = Some r"
    by (rule scan_specials_returns) (simp add: harmony_literals_nonempty)
  then show "\<exists>r. encode harmony_tokenizer s {} = Some r"
    by (simp add: encode_def)
next
  assume "\<forall>i < length s. \<forall>(l, r) \<in> set create_harmony_special_tokens.
          take (length l) (drop i s) \<noteq> l"
  then show "map_option fst (encode harmony_tokenizer s {}) = Some (encode_ordinary harmony_tokenizer s)"
    by (rule encode_without_special)
next
  assume a: "(lit, rank) \<in> set create_harmony_special_tokens
       \<and> (\<forall>i < length pre. \<forall>(l, r) \<in> set create_harmony_special_tokens.
             take (length l) (drop i (pre @ lit @ rest)) \<noteq> l)"
  have "\<exists>r. scan_specials harmony_tokenizer {} [] rest [] 0 = Some r"
    by (rule scan_specials_returns) (simp add: harmony_literals_nonempty)
  then obtain toks n where r: "encode harmony_tokenizer rest {} = Some (toks, n)"
    by (auto simp only: encode_harmony_scan)
  from a have "map_option fst (encode harmony_tokenizer (pre @ lit @ rest) {})
       = map_option (\<lambda>t. encode_ordinary harmony_tokenizer pre @ [rank] @ fst t)
           (encode harmony_tokenizer rest {})"
    by (intro encode_leftmost_special) simp_all
  with r show "\<exists>toks n. encode harmony_tokenizer rest {} = Some (toks, n)
            \<and> map_option fst (encode harmony_tokenizer (pre @ lit @ rest) {})
                = Some (encode_ordinary harmony_tokenizer pre @ [rank] @ toks)"
    by simp
qed

theorem encode_empty_allowed_is_all_allowed_witness:
  "\<not> (\<exists>i < length ''the''. \<exists>(l, r) \<in> set create_harmony_special_tokens.
         take (length l) (drop i ''the'') = l)
   \<and> map_option fst (encode harmony_tokenizer ''the'' {}) = Some [256, 101]
   \<and> (''<|end|>'', 200001) \<in> set create_harmony_special_tokens
   \<and> \<not> (\<exists>i < length ''a''. \<exists>(l, r) \<in> set create_harmony_special_tokens.
         take (length l) (drop i (''a'' @ ''<|end|>'' @ ''the'')) = l)
   \<and> map_option fst (encode harmony_tokenizer (''a'' @ ''<|end|>'' @ ''the'') {})
       = Some [97, 200001, 256, 101]"
proof -
  have h1: "\<forall>i < length ''the''. \<forall>(l, r) \<in> set create_harmony_special_tokens.
       take (length l) (drop i ''the'') \<noteq> l"
    by (simp add: create_harmony_special_tokens_def All_less_Suc)
  have h2: "(''<|end|>'', 200001) \<in> set create_harmony_special_tokens
       \<and> (\<forall>i < length ''a''. \<forall>(l, r) \<in> set create_harmony_special_tokens.
             take (length l) (drop i (''a'' @ ''<|end|>'' @ ''the'')) \<noteq> l)"
    by (simp add: create_harmony_special_tokens_def)
  have e: "encode_ordinary harmony_tokenizer ''the'' = [256, 101]"
    "encode_ordinary harmony_tokenizer ''a'' = [97]"
    by (simp_all add: tok_eval)
  note inst = encode_empty_allowed_is_all_allowed
    [of "''the''" "''<|end|>''" 200001 "''a''" "''the''"]
  from inst h1 have "map_option fst (encode harmony_tokenizer ''the'' {})
      = Some (encode_ordinary harmony_tokenizer ''the'')"
    by blast
  then have r: "map_option fst (encode harmony_tokenizer ''the'' {}) = Some [256, 101]"
    by (simp only: e)
  from inst h2 obtain toks n where
    "encode harmony_tokenizer ''the'' {} = Some (toks, n)"
    "map_option fst (encode harmony_tokenizer (''a'' @ ''<|end|>'' @ ''the'') {})
       = Some (encode_ordinary harmony_tokenizer ''a'' @ [200001] @ toks)"
    by blast
  with r have "map_option fst (encode harmony_tokenizer (''a'' @ ''<|end|>'' @ ''the'') {})
       = Some [97, 200001, 256, 101]"
    by (simp add: e)
  with h1 h2 r show ?thesis by blast
qed

section \<open>The renderer\<close>

lemmas special_eval = get_special_token_def load_harmony_encoding_def encode_with_special_tokens_def
  encode_def special_tokens_def scan_specials.simps create_harmony_special_tokens_def

lemma get_special_token_harmony:
  "get_special_token load_harmony_encoding ''<|start|>'' = Inr 200000"
  "get_special_token load_harmony_encoding ''<|end|>'' = Inr 200001"
  "get_special_token load_harmony_encoding ''<|message|>'' = Inr 200002"
  "get_special_token load_harmony_encoding ''<|channel|>'' = Inr 200003"
  "get_special_token load_harmony_encoding ''<|constrain|>'' = Inr 200004"
  "get_special_token load_harmony_encoding ''<|call|>'' = Inr 200005"
  by (simp_all add: special_eval)

lemma get_special_token_role:
  "get_special_token load_harmony_encoding (role_to_special_token r) =
     Inr (case r of System \<Rightarrow> 200011 | User \<Rightarrow> 200012 | Assistant \<Rightarrow> 200013
                  | Developer \<Rightarrow> 200014 | Tool \<Rightarrow> 200015)"
  by (cases r) (simp_all add: special_eval)

lemma render_message_shape:
  "render_message load_harmony_encoding message config =
     Inr ([200000, case role (author message) of System \<Rightarrow> 200011 | User \<Rightarrow> 200012
                     | Assistant \<Rightarrow> 200013 | Developer \<Rightarrow> 200014 | Tool \<Rightarrow> 200015]
          @ (case channel message of
               Some c \<Rightarrow> 200003 # encode_ordinary harmony_tokenizer c | None \<Rightarrow> [])
          @ (case recipient message of
               Some r \<Rightarrow> encode_ordinary harmony_tokenizer ('' to='' @ r) | None \<Rightarrow> [])
          @ (case content_type message of
               Some t \<Rightarrow> 200004 # encode_ordinary harmony_tokenizer t | None \<Rightarrow> [])
          @ [200002]
          @ concat (map (render_content harmony_tokenizer) (content message))
          @ [200001])"
proof -
  have tk: "tokenizer load_harmony_encoding = harmony_tokenizer"
    by (simp add: load_harmony_encoding_def)
  show ?thesis
    by (simp add: render_message_def and_then_def get_special_token_harmony get_special_token_role tk
        split: option.splits)
qed

lemma render_conversation_returns:
  "\<exists>ts. render_conversation load_harmony_encoding conversation config = Inr ts"
  by (induction conversation) (auto simp: and_then_def render_message_shape)

text \<open>
  C4. For every conversation and every role, \<open>render_conversation_for_completion\<close>
  returns the rendering of the conversation followed by exactly two ranks: the rank of
  \<^verbatim>\<open><|start|>\<close>, which is 200000, and the rank of the special token of the role:
  200011 for \<^verbatim>\<open><|system|>\<close>, 200012 for \<^verbatim>\<open><|user|>\<close>, 200013 for
  \<^verbatim>\<open><|assistant|>\<close>, 200014 for \<^verbatim>\<open><|developer|>\<close> and 200015 for
  \<^verbatim>\<open><|tool|>\<close>. Both ranks are the entries of the tokenizer's special-token table
  for these literals, and the literal of the role is the one \<open>role_to_special_token\<close>
  gives.
\<close>

theorem render_for_completion_suffix:
  "\<exists>ts start_token role_token.
     render_conversation load_harmony_encoding conversation config = Inr ts
     \<and> get_special_token load_harmony_encoding ''<|start|>'' = Inr start_token
     \<and> map_of (special_tokens_encoder harmony_tokenizer) ''<|start|>'' = Some start_token
     \<and> start_token = 200000
     \<and> get_special_token load_harmony_encoding (role_to_special_token next_turn_role) = Inr role_token
     \<and> map_of (special_tokens_encoder harmony_tokenizer) (role_to_special_token next_turn_role)
         = Some role_token
     \<and> map_of (special_tokens_encoder harmony_tokenizer)
          (case next_turn_role of System \<Rightarrow> ''<|system|>'' | User \<Rightarrow> ''<|user|>''
             | Assistant \<Rightarrow> ''<|assistant|>'' | Developer \<Rightarrow> ''<|developer|>''
             | Tool \<Rightarrow> ''<|tool|>'')
         = Some role_token
     \<and> role_token = (case next_turn_role of System \<Rightarrow> 200011 | User \<Rightarrow> 200012
                       | Assistant \<Rightarrow> 200013 | Developer \<Rightarrow> 200014 | Tool \<Rightarrow> 200015)
     \<and> render_conversation_for_completion load_harmony_encoding conversation next_turn_role config
         = Inr (ts @ [start_token, role_token])"
proof -
  obtain ts where "render_conversation load_harmony_encoding conversation config = Inr ts"
    using render_conversation_returns by blast
  moreover have "map_of (special_tokens_encoder harmony_tokenizer) ''<|start|>'' = Some 200000"
    by (simp add: create_harmony_special_tokens_def)
  moreover have "map_of (special_tokens_encoder harmony_tokenizer) (role_to_special_token next_turn_role)
      = Some (case next_turn_role of System \<Rightarrow> 200011 | User \<Rightarrow> 200012 | Assistant \<Rightarrow> 200013
                | Developer \<Rightarrow> 200014 | Tool \<Rightarrow> 200015)"
    by (cases next_turn_role) (simp_all add: create_harmony_special_tokens_def)
  moreover have "map_of (special_tokens_encoder harmony_tokenizer)
          (case next_turn_role of System \<Rightarrow> ''<|system|>'' | User \<Rightarrow> ''<|user|>''
             | Assistant \<Rightarrow> ''<|assistant|>'' | Developer \<Rightarrow> ''<|developer|>''
             | Tool \<Rightarrow> ''<|tool|>'')
      = Some (case next_turn_role of System \<Rightarrow> 200011 | User \<Rightarrow> 200012 | Assistant \<Rightarrow> 200013
                | Developer \<Rightarrow> 200014 | Tool \<Rightarrow> 200015)"
    by (cases next_turn_role) (simp_all add: create_harmony_special_tokens_def)
  ultimately show ?thesis
    by (simp add: render_conversation_for_completion_def and_then_def
        get_special_token_harmony get_special_token_role)
qed

text \<open>
  C6 (as stated in the specification: an assistant message that has a recipient ends
  with \<^verbatim>\<open><|call|>\<close> instead of \<^verbatim>\<open><|end|>\<close>). The tool call of the specification's
  scenario is rendered with the rank 200001 of \<^verbatim>\<open><|end|>\<close> last; the rank of
  \<^verbatim>\<open><|call|>\<close> is 200005.
\<close>

theorem tool_call_rendered_with_end:
  \<open>render_message load_harmony_encoding tool_call_message None =
     Inr ([200000, 200013]
          @ encode_ordinary harmony_tokenizer '' to=get_weather''
          @ 200004 # encode_ordinary harmony_tokenizer ''json''
          @ [200002]
          @ encode_ordinary harmony_tokenizer ''{"location":"NYC"}''
          @ [200001])
   \<and> recipient tool_call_message = Some ''get_weather''
   \<and> role (author tool_call_message) = Assistant
   \<and> get_special_token load_harmony_encoding ''<|call|>'' = Inr 200005\<close>
  by (simp add: render_message_shape get_special_token_harmony tool_call_message_def
      with_content_type_def with_recipient_def from_role_and_content_def)

text \<open>
  C6, amended. For every message, whatever its role and whether or not it has a
  recipient, the rendered token sequence ends with the rank of \<^verbatim>\<open><|end|>\<close>.
\<close>

theorem render_message_ends_with_end:
  "\<exists>ts. render_message load_harmony_encoding message config = Inr (ts @ [200001])
     \<and> get_special_token load_harmony_encoding ''<|end|>'' = Inr 200001"
  by (simp add: render_message_shape get_special_token_harmony)


section \<open>Decoding single tokens\<close>

lemma utf8_scan_ascii:
  "(\<And>c. c \<in> set result \<Longrightarrow> (of_char c :: nat) < 128) \<Longrightarrow> utf8_scan result i"
proof (induction result i rule: utf8_scan.induct)
  case (1 result i)
  show ?case
  proof (cases "i < length result")
    case True
    then have "(of_char (result ! i) :: nat) < 128"
      using "1.prems" by simp
    with True "1.IH"(1) [OF True refl] "1.prems" show ?thesis
      by (subst utf8_scan.simps) simp
  next
    case False
    then show ?thesis by (subst utf8_scan.simps) simp
  qed
qed

lemma utf8_scan_high_byte: "128 \<le> (of_char c :: nat) \<Longrightarrow> \<not> utf8_scan [c] 0"
  by (subst utf8_scan.simps) (simp add: Let_def)

lemma single_byte_lookup: "map_of create_basic_encoder [c] = Some (of_nat (of_char c))"
proof -
  have "map_of common_pairs [c] = None"
  proof (cases "map_of common_pairs [c]")
    case (Some r)
    then have "([c], r) \<in> set common_pairs" by (rule map_of_SomeD)
    then have "2 \<le> length [c]" by (auto dest: common_pairs_ranks)
    then show ?thesis by simp
  qed simp
  then show ?thesis by (simp add: basic_encoder_lookup)
qed

lemma decode_byte: "map_of (decoder harmony_tokenizer) (of_nat (of_char c)) = Some [c]"
  using basic_decoder_inverse [OF single_byte_lookup] by simp

lemma decode_pair:
  "(k, r) \<in> set common_pairs \<Longrightarrow> map_of (decoder harmony_tokenizer) r = Some k"
proof -
  assume "(k, r) \<in> set common_pairs"
  with common_pairs_distinct have "map_of common_pairs k = Some r" by simp
  then have "map_of create_basic_encoder k = Some r" by (simp add: basic_encoder_lookup)
  then show ?thesis using basic_decoder_inverse by simp
qed

lemma ordinary_decoder_range:
  "map_of (decoder harmony_tokenizer) r = Some k \<Longrightarrow> r \<le> 320 \<and> map_of create_basic_encoder k = Some r"
proof -
  assume "map_of (decoder harmony_tokenizer) r = Some k"
  then have "(k, r) \<in> set create_basic_encoder" by (simp add: invert_into_Some)
  with basic_encoder_distinct have "map_of create_basic_encoder k = Some r" by simp
  then show ?thesis by (simp add: basic_encoder_range)
qed

lemma ordinary_decoder_none: "320 < r \<Longrightarrow> map_of (decoder harmony_tokenizer) r = None"
proof (cases "map_of (decoder harmony_tokenizer) r")
  case (Some k)
  assume "320 < r"
  moreover from Some have "r \<le> 320" using ordinary_decoder_range by blast
  ultimately show ?thesis by simp
qed simp

lemma special_decoder_lookup:
  "map_of (special_tokens_decoder harmony_tokenizer) r
     = map_of (map (\<lambda>(k, v). (v, k)) create_harmony_special_tokens) r"
proof -
  have "distinct (map fst (map (\<lambda>(k, v). (v, k)) create_harmony_special_tokens))"
    by (simp add: create_harmony_special_tokens_def)
  then show ?thesis
    by (simp add: invert_into_lookup map_of_rev_distinct)
qed

lemma decode_special:
  assumes "(k, r) \<in> set create_harmony_special_tokens"
  shows "decode_utf8 harmony_tokenizer [r] = Inr k"
proof -
  from assms have "320 < r"
    by (auto simp: create_harmony_special_tokens_def)
  then have none: "map_of (decoder harmony_tokenizer) r = None" by (rule ordinary_decoder_none)
  have "distinct (map fst (map (\<lambda>(k, v). (v, k)) create_harmony_special_tokens))"
    by (simp add: create_harmony_special_tokens_def)
  moreover from assms have "(r, k) \<in> set (map (\<lambda>(k, v). (v, k)) create_harmony_special_tokens)"
    by force
  ultimately have "map_of (map (\<lambda>(k, v). (v, k)) create_harmony_special_tokens) r = Some k"
    by (rule map_of_is_SomeI)
  then have some: "map_of (special_tokens_decoder harmony_tokenizer) r = Some k"
    by (simp only: special_decoder_lookup)
  from assms have "\<And>c. c \<in> set k \<Longrightarrow> (of_char c :: nat) < 128"
    by (auto simp: create_harmony_special_tokens_def)
  then have "utf8_scan k 0" by (rule utf8_scan_ascii)
  with none some show ?thesis by (simp add: decode_utf8_def)
qed

lemma decode_utf8_byte:
  "(of_char c :: nat) < 128 \<Longrightarrow> decode_utf8 harmony_tokenizer [of_nat (of_char c)] = Inr [c]"
  using utf8_scan_ascii [of "[c]" 0] by (simp add: decode_utf8_def decode_byte del: harmony_fields)

lemma decode_utf8_high_byte:
  "128 \<le> (of_char c :: nat) \<Longrightarrow> decode_utf8 harmony_tokenizer [of_nat (of_char c)] = Inl DecodeError"
  by (simp add: decode_utf8_def decode_byte utf8_scan_high_byte del: harmony_fields)

lemma basic_encoder_key_length: "map_of create_basic_encoder k = Some r \<Longrightarrow> length k \<le> 4"
proof (cases "map_of common_pairs k")
  case None
  assume "map_of create_basic_encoder k = Some r"
  with None show ?thesis
    by (auto simp: basic_encoder_lookup split: list.splits)
next
  case (Some a)
  then have "(k, a) \<in> set common_pairs" by (rule map_of_SomeD)
  then show ?thesis by (auto simp: common_pairs_def)
qed

lemma decode_utf8_single:
  assumes "decode_utf8 harmony_tokenizer [token] = Inr k"
  shows "(map_of create_basic_encoder k = Some token \<and> length k \<le> 4)
         \<or> (k, token) \<in> set create_harmony_special_tokens"
proof (cases "map_of (decoder harmony_tokenizer) token")
  case None
  with assms have "map_of (special_tokens_decoder harmony_tokenizer) token = Some k"
    by (auto simp: decode_utf8_def split: option.splits if_splits)
  then have "(k, token) \<in> set create_harmony_special_tokens"
    by (simp add: invert_into_Some)
  then show ?thesis by simp
next
  case (Some k')
  with assms have "k' = k"
    by (auto simp: decode_utf8_def split: option.splits if_splits)
  with Some have "map_of create_basic_encoder k = Some token"
    using ordinary_decoder_range by blast
  then show ?thesis using basic_encoder_key_length by blast
qed

lemma decode_start_iff:
  "decode_utf8 harmony_tokenizer [token] = Inr ''<|start|>'' \<longleftrightarrow> token = 200000"
proof
  assume "decode_utf8 harmony_tokenizer [token] = Inr ''<|start|>''"
  from decode_utf8_single [OF this] show "token = 200000"
    by (auto simp: create_harmony_special_tokens_def)
next
  assume "token = 200000"
  then show "decode_utf8 harmony_tokenizer [token] = Inr ''<|start|>''"
    using decode_special [of "''<|start|>''" 200000]
    by (simp add: create_harmony_special_tokens_def)
qed

lemma tokenizer_harmony [simp]: "tokenizer load_harmony_encoding = harmony_tokenizer"
  by (simp add: load_harmony_encoding_def)

lemma encode_ordinary_examples:
  "encode_ordinary harmony_tokenizer ''assistant'' = [97, 115, 115, 105, 115, 116, 260, 116]"
  "encode_ordinary harmony_tokenizer ''final'' = [102, 258, 97, 108]"
  "encode_ordinary harmony_tokenizer ''Hi'' = [72, 105]"
  by (simp_all add: tok_eval)

lemma streaming_partial_encoding:
  "encode_with_special_tokens harmony_tokenizer streaming_partial_text = Some streaming_partial_tokens"
  by (simp add: encode_with_special_tokens_def encode_def special_tokens_def scan_specials.simps
      create_harmony_special_tokens_def encode_ordinary_examples
      streaming_partial_text_def streaming_partial_tokens_def)

lemma decode_utf8_pair:
  assumes "(k, r) \<in> set common_pairs"
  shows "decode_utf8 harmony_tokenizer [r] = Inr k"
proof -
  from assms have "\<And>c. c \<in> set k \<Longrightarrow> (of_char c :: nat) < 128"
    by (auto simp: common_pairs_def)
  then have "utf8_scan k 0" by (rule utf8_scan_ascii)
  with decode_pair [OF assms] show ?thesis by (simp add: decode_utf8_def del: harmony_fields)
qed

lemma decode_examples:
  "decode_utf8 harmony_tokenizer [200000] = Inr ''<|start|>''"
  "decode_utf8 harmony_tokenizer [200001] = Inr ''<|end|>''"
  "decode_utf8 harmony_tokenizer [200002] = Inr ''<|message|>''"
  "decode_utf8 harmony_tokenizer [200003] = Inr ''<|channel|>''"
  "decode_utf8 harmony_tokenizer [200013] = Inr ''<|assistant|>''"
  "decode_utf8 harmony_tokenizer [72] = Inr ''H''"
  "decode_utf8 harmony_tokenizer [97] = Inr ''a''"
  "decode_utf8 harmony_tokenizer [102] = Inr ''f''"
  "decode_utf8 harmony_tokenizer [104] = Inr ''h''"
  "decode_utf8 harmony_tokenizer [105] = Inr ''i''"
  "decode_utf8 harmony_tokenizer [108] = Inr ''l''"
  "decode_utf8 harmony_tokenizer [115] = Inr ''s''"
  "decode_utf8 harmony_tokenizer [116] = Inr ''t''"
  "decode_utf8 harmony_tokenizer [258] = Inr ''in''"
  "decode_utf8 harmony_tokenizer [260] = Inr ''an''"
  "decode_utf8 harmony_tokenizer [195] = Inl DecodeError"
  "decode_utf8 harmony_tokenizer [169] = Inl DecodeError"
  using decode_special [of "''<|start|>''" 200000] decode_special [of "''<|end|>''" 200001]
    decode_special [of "''<|message|>''" 200002] decode_special [of "''<|channel|>''" 200003]
    decode_special [of "''<|assistant|>''" 200013]
    decode_utf8_byte [of "CHR ''H''"] decode_utf8_byte [of "CHR ''a''"]
    decode_utf8_byte [of "CHR ''f''"] decode_utf8_byte [of "CHR ''h''"]
    decode_utf8_byte [of "CHR ''i''"] decode_utf8_byte [of "CHR ''l''"]
    decode_utf8_byte [of "CHR ''s''"] decode_utf8_byte [of "CHR ''t''"]
    decode_utf8_pair [of "''in''" 258] decode_utf8_pair [of "''an''" 260]
    decode_utf8_high_byte [of "CHR 0xC3"] decode_utf8_high_byte [of "CHR 0xA9"]
  by (simp_all add: create_harmony_special_tokens_def common_pairs_def)

lemmas parser_eval = process_def decode_examples StreamableParser_new_def
  parse_role_from_token_def finalize_current_message_def


section \<open>The streamable parser\<close>

text \<open>
  C7, amended. For every token fed to the parser in state \<open>ExpectStart\<close> over the
  harmony encoding: the call fails only when the token cannot be decoded on its own (an
  unknown rank, or bytes that are not valid UTF-8); otherwise the token is recorded, the
  parser moves to \<open>Header\<close> exactly when the token is \<^verbatim>\<open><|start|>\<close> (rank 200000), and
  on any other token it stays in \<open>ExpectStart\<close> without raising a protocol error.
\<close>

theorem expect_start_step:
  assumes "state p = ExpectStart" and "encoding p = load_harmony_encoding"
  shows "process p token =
     (case decode_utf8 harmony_tokenizer [token] of
        Inl e \<Rightarrow> Inl e
      | Inr token_text \<Rightarrow>
          Inr (p \<lparr> tokens := tokens p @ [token],
                   state := if token = 200000 then Header else ExpectStart \<rparr>))"
proof (cases "decode_utf8 harmony_tokenizer [token]")
  case (Inl e)
  with assms show ?thesis by (simp add: process_def)
next
  case (Inr token_text)
  then have "token_text = ''<|start|>'' \<longleftrightarrow> token = 200000"
    using decode_start_iff [of token] by auto
  with Inr assms show ?thesis by (simp add: process_def)
qed

theorem expect_start_step_witness:
  "state (StreamableParser_new load_harmony_encoding None) = ExpectStart
   \<and> encoding (StreamableParser_new load_harmony_encoding None) = load_harmony_encoding
   \<and> process (StreamableParser_new load_harmony_encoding None) 200000
       = Inr ((StreamableParser_new load_harmony_encoding None)
                \<lparr> tokens := [200000], state := Header \<rparr>)"
proof -
  have s: "state (StreamableParser_new load_harmony_encoding None) = ExpectStart"
    and e: "encoding (StreamableParser_new load_harmony_encoding None) = load_harmony_encoding"
    by (simp_all add: StreamableParser_new_def)
  from expect_start_step [OF s e, of 200000] s e show ?thesis
    by (simp add: decode_examples StreamableParser_new_def)
qed

text \<open>
  C7 (as stated in the specification: in \<open>ExpectStart\<close> every token other than
  \<^verbatim>\<open><|start|>\<close> raises a protocol error). The special token \<^verbatim>\<open><|message|>\<close>
  (rank 200002) and the ordinary token \<^verbatim>\<open>h\<close> (rank 104), fed to a fresh parser, are
  recorded without any error and leave the parser in \<open>ExpectStart\<close>.
\<close>

theorem expect_start_accepts_other_tokens:
  "process (StreamableParser_new load_harmony_encoding None) 200002
     = Inr ((StreamableParser_new load_harmony_encoding None) \<lparr> tokens := [200002] \<rparr>)
   \<and> process (StreamableParser_new load_harmony_encoding None) 104
     = Inr ((StreamableParser_new load_harmony_encoding None) \<lparr> tokens := [104] \<rparr>)
   \<and> state (StreamableParser_new load_harmony_encoding None) = ExpectStart"
  by (simp add: process_def decode_examples StreamableParser_new_def)

text \<open>
  C8. The specification's streaming scenario, run on the source: the text encodes to
  \<open>streaming_partial_tokens\<close>; fed one by one to a fresh parser, the tokens leave it in
  state \<open>Header\<close> (the role arrives as the ordinary text \<^verbatim>\<open>assistant\<close>, which
  \<^verbatim>\<open>parse_role_from_token\<close> does not accept), with no channel and an empty content
  buffer, where the specification has channel \<^verbatim>\<open>final\<close> and content \<^verbatim>\<open>Hi\<close>.
\<close>

theorem streaming_partial_scenario:
  "encode_with_special_tokens harmony_tokenizer streaming_partial_text = Some streaming_partial_tokens
   \<and> process_all (StreamableParser_new load_harmony_encoding (Some Assistant)) streaming_partial_tokens
       = Inr ((StreamableParser_new load_harmony_encoding (Some Assistant))
                \<lparr> tokens := streaming_partial_tokens, state := Header \<rparr>)
   \<and> current_channel ((StreamableParser_new load_harmony_encoding (Some Assistant))
                \<lparr> tokens := streaming_partial_tokens, state := Header \<rparr>) = None
   \<and> current_content ((StreamableParser_new load_harmony_encoding (Some Assistant))
                \<lparr> tokens := streaming_partial_tokens, state := Header \<rparr>) = []"
  by (simp add: streaming_partial_encoding)
     (simp add: streaming_partial_tokens_def parser_eval)

text \<open>
  With the role sent as the special token \<^verbatim>\<open><|assistant|>\<close> the parser does reach
  \<open>Content\<close>, where the branch for \<^verbatim>\<open><|channel|>\<close> is empty: the channel stays unset
  and the channel text is appended to the content buffer.
\<close>

lemma streaming_role_token_scenario:
  "process_all (StreamableParser_new load_harmony_encoding (Some Assistant))
       [200000, 200013, 200003, 102, 258, 97, 108, 200002, 72, 105]
     = Inr ((StreamableParser_new load_harmony_encoding (Some Assistant))
              \<lparr> tokens := [200000, 200013, 200003, 102, 258, 97, 108, 200002, 72, 105],
                state := Content, last_content_delta := Some ''i'',
                current_content := ''finalHi'', current_role := Some Assistant \<rparr>)"
  by (simp add: parser_eval)









text \<open>
  C10. Whenever a step of the parser appends a completed message to \<open>messages\<close>
  (\<open>finalize_current_message\<close> itself, \<open>process\<close> on a token, or \<open>process_eos\<close>), the same
  step resets every per-message field: \<open>current_content\<close> is empty and \<open>current_role\<close>,
  \<open>current_channel\<close>, \<open>current_recipient\<close> and \<open>current_content_type\<close> are absent.
\<close>

theorem finalize_resets_fields:
  "(messages (finalize_current_message p) \<noteq> messages p \<longrightarrow>
      current_content (finalize_current_message p) = []
      \<and> current_role (finalize_current_message p) = None
      \<and> current_channel (finalize_current_message p) = None
      \<and> current_recipient (finalize_current_message p) = None
      \<and> current_content_type (finalize_current_message p) = None)
   \<and> (process p token = Inr p' \<and> messages p' \<noteq> messages p \<longrightarrow>
      current_content p' = [] \<and> current_role p' = None \<and> current_channel p' = None
      \<and> current_recipient p' = None \<and> current_content_type p' = None)
   \<and> (messages (process_eos p) \<noteq> messages p \<longrightarrow>
      current_content (process_eos p) = []
      \<and> current_role (process_eos p) = None
      \<and> current_channel (process_eos p) = None
      \<and> current_recipient (process_eos p) = None
      \<and> current_content_type (process_eos p) = None)"
proof -
  have fin: "messages (finalize_current_message q) \<noteq> messages q \<Longrightarrow>
      current_content (finalize_current_message q) = []
      \<and> current_role (finalize_current_message q) = None
      \<and> current_channel (finalize_current_message q) = None
      \<and> current_recipient (finalize_current_message q) = None
      \<and> current_content_type (finalize_current_message q) = None" for q
    by (cases "current_role q") (simp_all add: finalize_current_message_def)
  have proc: "current_content p' = [] \<and> current_role p' = None \<and> current_channel p' = None
      \<and> current_recipient p' = None \<and> current_content_type p' = None"
    if "process p token = Inr p'" and "messages p' \<noteq> messages p"
  proof -
    from that obtain token_text where
      "decode_utf8 (tokenizer (encoding p)) [token] = Inr token_text"
      by (auto simp: process_def Let_def split: sum.splits)
    with that have p': "p' = (finalize_current_message (p \<lparr> tokens := tokens p @ [token] \<rparr>))
         \<lparr> state := ExpectStart \<rparr>"
      by (auto simp: process_def Let_def split: StreamState.splits if_splits)
    with that(2) have "messages (finalize_current_message (p \<lparr> tokens := tokens p @ [token] \<rparr>))
        \<noteq> messages (p \<lparr> tokens := tokens p @ [token] \<rparr>)"
      by simp
    from fin [OF this] p' show ?thesis by simp
  qed
  have eos: "messages (process_eos p) \<noteq> messages p \<Longrightarrow>
      current_content (process_eos p) = []
      \<and> current_role (process_eos p) = None
      \<and> current_channel (process_eos p) = None
      \<and> current_recipient (process_eos p) = None
      \<and> current_content_type (process_eos p) = None"
    using fin [of p] by (auto simp: process_eos_def split: if_splits)
  from fin [of p] proc eos show ?thesis by blast
qed

theorem finalize_resets_fields_witness:
  "process open_message_parser 200001
     = Inr (open_message_parser
              \<lparr> tokens := [200000, 200013, 200002, 72, 105, 200001],
                messages := [\<lparr> author = \<lparr> role = Assistant, name = None \<rparr>, recipient = None,
                               content = [TextContent ''Hi''], channel = None,
                               content_type = None \<rparr>],
                state := ExpectStart, current_content := [], current_role := None \<rparr>)
   \<and> messages open_message_parser = []
   \<and> messages (finalize_current_message open_message_parser) \<noteq> messages open_message_parser
   \<and> current_content (finalize_current_message open_message_parser) = []
   \<and> current_role (finalize_current_message open_message_parser) = None
   \<and> messages (process_eos open_message_parser) \<noteq> messages open_message_parser
   \<and> current_content (process_eos open_message_parser) = []
   \<and> current_role (process_eos open_message_parser) = None"
proof -
  have run: "process open_message_parser 200001
     = Inr (open_message_parser
              \<lparr> tokens := [200000, 200013, 200002, 72, 105, 200001],
                messages := [\<lparr> author = \<lparr> role = Assistant, name = None \<rparr>, recipient = None,
                               content = [TextContent ''Hi''], channel = None,
                               content_type = None \<rparr>],
                state := ExpectStart, current_content := [], current_role := None \<rparr>)"
    by (simp add: open_message_parser_def parser_eval)
  have ne: "messages open_message_parser = []"
    "messages (finalize_current_message open_message_parser) \<noteq> messages open_message_parser"
    "messages (process_eos open_message_parser) \<noteq> messages open_message_parser"
    by (simp_all add: open_message_parser_def process_eos_def parser_eval)
  from finalize_resets_fields [of open_message_parser 200001] run ne show ?thesis
    by simp
qed

section \<open>The round trip through the wire format\<close>

lemma hello_rendering:
  "render_conversation load_harmony_encoding hello_conversation None
     = Inr ([200000, 200012, 200002] @ encode_ordinary harmony_tokenizer ''Hello'' @ [200001])"
  by (simp add: hello_conversation_def from_role_and_content_def render_message_shape and_then_def)

lemma hello_decoding:
  "decode_utf8 harmony_tokenizer
     ([200000, 200012, 200002] @ encode_ordinary harmony_tokenizer ''Hello'' @ [200001])
   = Inr ''<|start|><|user|><|message|>Hello<|end|>''"
proof -
  have body: "decode_bytes harmony_tokenizer (encode_ordinary harmony_tokenizer ''Hello'') = Inr ''Hello''"
    by (simp add: encode_ordinary_def encode_ordinary_pieces_lossless fallback_regex_concat)
  have "decode_bytes harmony_tokenizer
     ([200000, 200012, 200002] @ encode_ordinary harmony_tokenizer ''Hello'' @ [200001])
   = Inr ''<|start|><|user|><|message|>Hello<|end|>''"
    by (simp add: decode_bytes_append body ordinary_decoder_none
        special_decoder_lookup create_harmony_special_tokens_def del: harmony_fields)
  moreover have "utf8_scan ''<|start|><|user|><|message|>Hello<|end|>'' 0"
    by (rule utf8_scan_ascii) auto
  ultimately show ?thesis by (simp add: decode_utf8_def)
qed

lemma hello_parsing: "parse_harmony_format ''<|start|><|user|><|message|>Hello<|end|>'' = []"
  by code_simp

lemma textual_role_parsing:
  "parse_harmony_format ''<|start|>user<|message|>Hello<|end|>''
     = [from_role_and_content User (TextContent ''Hello'')]"
  by code_simp

text \<open>
  C1. The round trip on the specification's simple scenario, run on the source: the
  conversation of one user message \<^verbatim>\<open>Hello\<close> renders to the tokens of
  \<^verbatim>\<open><|start|><|user|><|message|>Hello<|end|>\<close>, with the role as a special token;
  \<^verbatim>\<open>parse_harmony_format\<close> wants at least one byte other than \<^verbatim>\<open><\<close> behind
  \<^verbatim>\<open><|start|>\<close> (a textual role, as in \<open>textual_role_parsing\<close>), finds no message
  and returns the empty list, where \<^verbatim>\<open>strip_empty\<close> keeps the message.
\<close>

theorem roundtrip_loses_message:
  "render_conversation load_harmony_encoding hello_conversation None
     = Inr ([200000, 200012, 200002] @ encode_ordinary harmony_tokenizer ''Hello'' @ [200001])
   \<and> parse_messages_from_completion_tokens load_harmony_encoding
       ([200000, 200012, 200002] @ encode_ordinary harmony_tokenizer ''Hello'' @ [200001]) None
     = Inr []
   \<and> strip_empty hello_conversation = hello_conversation
   \<and> hello_conversation \<noteq> []"
proof -
  have "parse_messages_from_completion_tokens load_harmony_encoding
       ([200000, 200012, 200002] @ encode_ordinary harmony_tokenizer ''Hello'' @ [200001]) None
     = Inr []"
    by (simp only: parse_messages_from_completion_tokens_def tokenizer_harmony hello_decoding
        hello_parsing sum.case)
  moreover have "strip_empty hello_conversation = hello_conversation \<and> hello_conversation \<noteq> []"
    by (simp add: strip_empty_def hello_conversation_def from_role_and_content_def)
  ultimately show ?thesis using hello_rendering by blast
qed

end
